theory Spec2Isabelle
  imports Main "HOL-Library.AList"
begin

text \<open>
  A shallow embedding of \<^verbatim>\<open>src/rule/savePostsData.js\<close> of the wechat_spider
  repository: the class \<^verbatim>\<open>FindProfileHandler\<close> and the functions
  \<^verbatim>\<open>savePostsData\<close>, \<^verbatim>\<open>getPostDetail\<close> and \<^verbatim>\<open>upsertPosts\<close>. Asynchronous
  functions are functions on an explicit store that return an error or a value together
  with the store they leave; the one place where calls interleave, the handler, is a
  step function on events. The definitions come first, then the properties.
\<close>

section \<open>JavaScript values and objects\<close>

text \<open>
  The values that flow through \<^verbatim>\<open>src/rule/savePostsData.js\<close>: \<^verbatim>\<open>undefined\<close>,
  \<^verbatim>\<open>null\<close>, booleans, numbers (integers here: the code only multiplies epoch
  seconds by 1000), strings, \<^verbatim>\<open>Date\<close> objects (epoch milliseconds) and arrays.
  Strings are byte lists (UTF-8).
\<close>

datatype jsval =
    Undefined
  | Null
  | JBool bool
  | JNum int
  | JStr string
  | JDate int
  | JArr "jsval list"

text \<open>JavaScript's ToBoolean, as used by \<^verbatim>\<open>!x\<close>, \<^verbatim>\<open>x && y\<close> and \<^verbatim>\<open>if (x)\<close>.\<close>

fun truthy :: "jsval \<Rightarrow> bool" where
  "truthy Undefined = False"
| "truthy Null = False"
| "truthy (JBool b) = b"
| "truthy (JNum n) = (n \<noteq> 0)"
| "truthy (JStr s) = (s \<noteq> [])"
| "truthy (JDate t) = True"
| "truthy (JArr xs) = True"

text \<open>
  A plain object (a document, a filter, an update object) is the list of its properties in
  insertion order. Reading a property that is not there gives \<^verbatim>\<open>undefined\<close>.
\<close>

type_synonym obj = "(string \<times> jsval) list"

definition fld :: "obj \<Rightarrow> string \<Rightarrow> jsval" where
  "fld ob k = (case map_of ob k of None \<Rightarrow> Undefined | Some v \<Rightarrow> v)"

section \<open>The document store\<close>

text \<open>
  Modelled from the spec: the document store behind \<^verbatim>\<open>models.Post\<close> and
  \<^verbatim>\<open>models.Profile\<close> (\<^verbatim>\<open>require('../models')\<close>, not among the sources). The spec
  asks for "a document store supporting find-by-key and atomic find-and-modify-or-create
  with partial-field set semantics and an upsert flag". A collection is the list of its
  documents. A filter matches a document that agrees with it on every property of the
  filter; \<^verbatim>\<open>findOne\<close> returns the first match or \<^verbatim>\<open>null\<close> (\<open>None\<close>);
  \<^verbatim>\<open>findOneAndUpdate\<close> with \<^verbatim>\<open>upsert: true\<close> (every call site passes it) sets the
  named properties on the first match, or inserts the filter's properties with the update
  applied, and returns the document after the update under \<^verbatim>\<open>new: true\<close> and the
  one before it (\<^verbatim>\<open>null\<close> when it was inserted) otherwise.
\<close>

definition matches :: "obj \<Rightarrow> obj \<Rightarrow> bool" where
  "matches flt d = list_all (\<lambda>(k, v). fld d k = v) flt"

definition apply_set :: "obj \<Rightarrow> obj \<Rightarrow> obj" where
  "apply_set sets d = fold (\<lambda>(k, v). AList.update k v) sets d"

fun update_first :: "obj \<Rightarrow> obj \<Rightarrow> obj list \<Rightarrow> obj list" where
  "update_first flt sets [] = []"
| "update_first flt sets (d # ds) =
     (if matches flt d then apply_set sets d # ds else d # update_first flt sets ds)"

definition coll_findOne :: "obj \<Rightarrow> obj list \<Rightarrow> obj option" where
  "coll_findOne flt c = List.find (matches flt) c"

definition coll_findOneAndUpdate :: "obj \<Rightarrow> obj \<Rightarrow> bool \<Rightarrow> obj list \<Rightarrow> obj option \<times> obj list" where
  "coll_findOneAndUpdate flt sets new c =
     (case coll_findOne flt c of
        None \<Rightarrow> (let d = apply_set sets flt in (if new then Some d else None, c @ [d]))
      | Some d0 \<Rightarrow> (Some (if new then apply_set sets d0 else d0), update_first flt sets c))"

text \<open>
  Every call the code makes on an external collaborator is recorded, in order, in
  \<open>oplog\<close>: the queries and writes on the two collections, the publish-history
  recorder and the queue-length query.
\<close>

datatype store_op =
    PostFindOne obj
  | PostFindOneAndUpdate obj obj
  | ProfileFindOne obj
  | ProfileFindOneAndUpdate obj obj
  | SavePubRecords "obj list"
  | RedisLlen

record store =
  Post :: "obj list"
  Profile :: "obj list"
  oplog :: "store_op list"

text \<open>
  What an \<^verbatim>\<open>async\<close> function can end with instead of a value: a rejected
  collaborator call, a \<^verbatim>\<open>TypeError\<close> thrown by the code itself, or a promise that
  nobody ever settles.
\<close>

datatype error = StoreError | TypeError | FetchError | NeverSettles

section \<open>The environment: collaborators outside the file\<close>

text \<open>
  Everything \<^verbatim>\<open>savePostsData.js\<close> requires from elsewhere is a field of the
  environment:
  \<^item> \<open>rejects\<close>: which collaborator calls come back rejected (the fault model of the
    store, the publish-history recorder and the queue);
  \<^item> \<open>escape2Html\<close>: \<^verbatim>\<open>helper.escape2Html\<close>;
  \<^item> \<open>url_query\<close>: \<^verbatim>\<open>url.parse(link, true).query\<close> of Node;
  \<^item> \<open>getIdentifying\<close>, \<open>getBody\<close>: the two methods of \<^verbatim>\<open>ContentHandler\<close>, given
    the link and the body passed to its constructor;
  \<^item> \<open>js_content_html\<close>: \<^verbatim>\<open>cheerio.load(body)('#js_content').html()\<close>,
    \<open>None\<close> for \<^verbatim>\<open>null\<close>;
  \<^item> \<open>isSavePostContent\<close>, \<open>saveContentType\<close>: the two settings read from
    \<^verbatim>\<open>config.rule.page\<close>.
\<close>

record env =
  rejects :: "store_op \<Rightarrow> bool"
  escape2Html :: "string \<Rightarrow> string"
  url_query :: "string \<Rightarrow> obj"
  getIdentifying :: "jsval \<Rightarrow> jsval \<Rightarrow> error + (jsval \<times> jsval \<times> jsval)"
  getBody :: "jsval \<Rightarrow> jsval \<Rightarrow> error + string"
  js_content_html :: "string \<Rightarrow> string option"
  isSavePostContent :: bool
  saveContentType :: string

text \<open>
  A collaborator call appends itself to the log, then either rejects or takes effect.
  A computation is a function from the store to a result (an error or a value) and the
  store it leaves behind: what was written before a rejection stays written.
\<close>

definition Post_findOne :: "env \<Rightarrow> obj \<Rightarrow> store \<Rightarrow> (error + obj option) \<times> store" where
  "Post_findOne env flt s =
     (let s1 = s\<lparr>oplog := oplog s @ [PostFindOne flt]\<rparr> in
      if rejects env (PostFindOne flt) then (Inl StoreError, s1)
      else (Inr (coll_findOne flt (Post s1)), s1))"

definition Post_findOneAndUpdate ::
  "env \<Rightarrow> obj \<Rightarrow> obj \<Rightarrow> bool \<Rightarrow> store \<Rightarrow> (error + obj option) \<times> store" where
  "Post_findOneAndUpdate env flt sets new s =
     (let s1 = s\<lparr>oplog := oplog s @ [PostFindOneAndUpdate flt sets]\<rparr> in
      if rejects env (PostFindOneAndUpdate flt sets) then (Inl StoreError, s1)
      else (case coll_findOneAndUpdate flt sets new (Post s1) of
              (r, c) \<Rightarrow> (Inr r, s1\<lparr>Post := c\<rparr>)))"

definition Profile_findOne :: "env \<Rightarrow> obj \<Rightarrow> store \<Rightarrow> (error + obj option) \<times> store" where
  "Profile_findOne env flt s =
     (let s1 = s\<lparr>oplog := oplog s @ [ProfileFindOne flt]\<rparr> in
      if rejects env (ProfileFindOne flt) then (Inl StoreError, s1)
      else (Inr (coll_findOne flt (Profile s1)), s1))"

definition Profile_findOneAndUpdate ::
  "env \<Rightarrow> obj \<Rightarrow> obj \<Rightarrow> bool \<Rightarrow> store \<Rightarrow> (error + obj option) \<times> store" where
  "Profile_findOneAndUpdate env flt sets new s =
     (let s1 = s\<lparr>oplog := oplog s @ [ProfileFindOneAndUpdate flt sets]\<rparr> in
      if rejects env (ProfileFindOneAndUpdate flt sets) then (Inl StoreError, s1)
      else (case coll_findOneAndUpdate flt sets new (Profile s1) of
              (r, c) \<Rightarrow> (Inr r, s1\<lparr>Profile := c\<rparr>)))"

text \<open>
  \<^verbatim>\<open>await Promise.all(xs.map(async x => ...))\<close>: every callback is started, so every
  one of them has its effect on the store; the joined promise rejects when one of them
  does, and otherwise carries the results in the order of the inputs. The store applies
  the calls one at a time; the model takes them in the order of the list.
\<close>

fun promise_all ::
  "('a \<Rightarrow> store \<Rightarrow> (error + 'b) \<times> store) \<Rightarrow> 'a list \<Rightarrow> store \<Rightarrow> (error + 'b list) \<times> store" where
  "promise_all f [] s = (Inr [], s)"
| "promise_all f (x # xs) s =
     (case f x s of (r, s1) \<Rightarrow>
        (case promise_all f xs s1 of (rs, s2) \<Rightarrow>
           ((case r of
               Inl e \<Rightarrow> Inl e
             | Inr y \<Rightarrow> (case rs of Inl e \<Rightarrow> Inl e | Inr ys \<Rightarrow> Inr (y # ys))), s2)))"

section \<open>upsertPosts\<close>

text \<open>
  The argument of \<^verbatim>\<open>upsertPosts\<close> is a falsy value, one record or an array of
  records; it returns \<^verbatim>\<open>undefined\<close>, one result or an array of results, a result
  being a saved document or \<^verbatim>\<open>null\<close> (\<open>None\<close>).
\<close>

datatype posts_arg = Falsy | Single obj | Array "obj list"

datatype upsert_result = RUndefined | ROne "obj option" | RArray "obj option list"

definition identity_filter :: "jsval \<Rightarrow> jsval \<Rightarrow> jsval \<Rightarrow> obj" where
  "identity_filter msgBiz msgMid msgIdx =
     [(''msgBiz'', msgBiz), (''msgMid'', msgMid), (''msgIdx'', msgIdx)]"

text \<open>The callback of \<^verbatim>\<open>posts.map\<close> in \<^verbatim>\<open>upsertPosts\<close> (lines 277-288).\<close>

definition upsert_post :: "env \<Rightarrow> obj \<Rightarrow> store \<Rightarrow> (error + obj option) \<times> store" where
  "upsert_post env post s =
     (let msgBiz = fld post ''msgBiz''; msgMid = fld post ''msgMid''; msgIdx = fld post ''msgIdx'' in
      if \<not> truthy msgBiz \<or> \<not> truthy msgMid \<or> \<not> truthy msgIdx then (Inr None, s)
      else Post_findOneAndUpdate env (identity_filter msgBiz msgMid msgIdx) post True s)"

definition upsertPosts :: "env \<Rightarrow> posts_arg \<Rightarrow> store \<Rightarrow> (error + upsert_result) \<times> store" where
  "upsertPosts env posts s =
     (case posts of
        Falsy \<Rightarrow> (Inr RUndefined, s)
      | Single post \<Rightarrow>
          (case promise_all (upsert_post env) [post] s of
             (Inl e, s') \<Rightarrow> (Inl e, s')
           | (Inr res, s') \<Rightarrow> (Inr (case res of [] \<Rightarrow> RUndefined | r # _ \<Rightarrow> ROne r), s'))
      | Array ps \<Rightarrow>
          (case promise_all (upsert_post env) ps s of
             (Inl e, s') \<Rightarrow> (Inl e, s')
           | (Inr res, s') \<Rightarrow> (Inr (RArray res), s')))"

definition identity :: "obj \<Rightarrow> jsval \<times> jsval \<times> jsval" where
  "identity d = (fld d ''msgBiz'', fld d ''msgMid'', fld d ''msgIdx'')"

definition has_identity :: "obj \<Rightarrow> bool" where
  "has_identity d =
     (truthy (fld d ''msgBiz'') \<and> truthy (fld d ''msgMid'') \<and> truthy (fld d ''msgIdx''))"

text \<open>The one store call \<^verbatim>\<open>upsertPosts\<close> makes for a record that has its identity.\<close>

definition upsert_op :: "obj \<Rightarrow> store_op" where
  "upsert_op post =
     PostFindOneAndUpdate
       (identity_filter (fld post ''msgBiz'') (fld post ''msgMid'') (fld post ''msgIdx'')) post"

section \<open>FindProfileHandler\<close>

text \<open>
  The two maps of the class. \<open>profileMap\<close> holds a document or \<^verbatim>\<open>null\<close>
  (\<open>Some None\<close>) for a resolved key and nothing (\<^verbatim>\<open>undefined\<close>) otherwise.
  \<open>profileWaitingMap\<close> holds, for a key, the address of its \<^verbatim>\<open>waitingList\<close>
  array: the leader keeps a reference to the very array it stored in the map, and the
  followers push onto the array they read from the map.
\<close>

record FindProfileHandler =
  profileMap :: "jsval \<rightharpoonup> obj option"
  profileWaitingMap :: "jsval \<rightharpoonup> nat"

definition new_FindProfileHandler :: FindProfileHandler where
  "new_FindProfileHandler = \<lparr>profileMap = Map.empty, profileWaitingMap = Map.empty\<rparr>"

text \<open>
  \<^verbatim>\<open>find\<close> is an \<^verbatim>\<open>async\<close> function on a single-threaded event loop: a call runs
  without interruption up to its \<^verbatim>\<open>await\<close>, and again from there once the awaited
  promise settles. The runtime state holds the handler, the arrays by address (each a list
  of the calls whose \<^verbatim>\<open>triggerFn\<close> was pushed), the leaders suspended at
  \<^verbatim>\<open>await models.Profile.findOne\<close> (call, key, address of the leader's
  \<^verbatim>\<open>waitingList\<close>), the calls whose promise has settled with their outcome, and the
  keys of the \<^verbatim>\<open>findOne\<close> queries issued so far. A call is named by a number.
\<close>

record runtime =
  this :: FindProfileHandler
  arrays :: "nat list list"
  suspended :: "(nat \<times> jsval \<times> nat) list"
  settled :: "nat \<rightharpoonup> error + obj option"
  queries :: "jsval list"

definition new_runtime :: runtime where
  "new_runtime =
     \<lparr>this = new_FindProfileHandler, arrays = [], suspended = [], settled = Map.empty,
      queries = []\<rparr>"

text \<open>
  Lines 33-42 and 55-58: the part of \<^verbatim>\<open>find(biz)\<close> that runs when it is called. A
  resolved key returns at once; otherwise the first caller stores a new array in
  \<open>profileWaitingMap\<close>, issues the query and suspends; a later caller pushes its
  \<^verbatim>\<open>triggerFn\<close> onto the array found in the map and suspends.
\<close>

definition find_enter :: "nat \<Rightarrow> jsval \<Rightarrow> runtime \<Rightarrow> runtime" where
  "find_enter call biz r =
     (case profileMap (this r) biz of
        Some doc \<Rightarrow> r\<lparr>settled := (settled r)(call \<mapsto> Inr doc)\<rparr>
      | None \<Rightarrow>
          (case profileWaitingMap (this r) biz of
             None \<Rightarrow>
               (let waitingList = length (arrays r) in
                r\<lparr>this := (this r)\<lparr>profileWaitingMap :=
                         (profileWaitingMap (this r))(biz \<mapsto> waitingList)\<rparr>,
                  arrays := arrays r @ [[]],
                  suspended := suspended r @ [(call, biz, waitingList)],
                  queries := queries r @ [biz]\<rparr>)
           | Some waitingList \<Rightarrow>
               r\<lparr>arrays := (arrays r)[waitingList := arrays r ! waitingList @ [call]]\<rparr>))"

text \<open>
  Lines 42-53: the leader resumes with the outcome of its query. A rejection is thrown out
  of \<^verbatim>\<open>find\<close> at the \<^verbatim>\<open>await\<close>: nothing after it runs. An answer (\<open>None\<close> for
  no document, which line 43 turns into \<^verbatim>\<open>null\<close>) is stored in \<open>profileMap\<close>,
  handed to every \<^verbatim>\<open>triggerFn\<close> of the leader's array, the key is deleted from
  \<open>profileWaitingMap\<close>, and the answer is returned.
\<close>

definition find_resume :: "nat \<Rightarrow> jsval \<Rightarrow> nat \<Rightarrow> error + obj option \<Rightarrow> runtime \<Rightarrow> runtime" where
  "find_resume call biz waitingList answer r =
     (case answer of
        Inl e \<Rightarrow> r\<lparr>settled := (settled r)(call \<mapsto> Inl e)\<rparr>
      | Inr doc \<Rightarrow>
          r\<lparr>this := (this r)\<lparr>profileMap := (profileMap (this r))(biz \<mapsto> doc),
                           profileWaitingMap := (profileWaitingMap (this r))(biz := None)\<rparr>,
            settled := (fold (\<lambda>triggerFn m. m(triggerFn \<mapsto> Inr doc))
                          (arrays r ! waitingList) (settled r))(call \<mapsto> Inr doc)\<rparr>)"

text \<open>
  What can happen next: somebody calls \<^verbatim>\<open>find(biz)\<close>, or the query a suspended
  leader waits for completes. An answer for a call that is not suspended changes nothing.
\<close>

datatype event = Invoke nat jsval | Answer nat "error + obj option"

fun step :: "event \<Rightarrow> runtime \<Rightarrow> runtime" where
  "step (Invoke call biz) r = find_enter call biz r"
| "step (Answer call answer) r =
     (case map_of (suspended r) call of
        None \<Rightarrow> r
      | Some (biz, waitingList) \<Rightarrow>
          find_resume call biz waitingList answer
            (r\<lparr>suspended := AList.delete call (suspended r)\<rparr>))"

definition run :: "event list \<Rightarrow> runtime \<Rightarrow> runtime" where
  "run evs r = fold step evs r"

text \<open>
  \<^verbatim>\<open>await findProfileHandler.find(biz)\<close> where nothing else uses the handler
  meanwhile: the call is made, the query it issued (if any) is answered by the store, and
  the call's promise is read. A promise that is still unsettled then stays so for ever.
\<close>

definition await_find ::
  "env \<Rightarrow> nat \<Rightarrow> jsval \<Rightarrow> runtime \<Rightarrow> store \<Rightarrow> (error + obj option) \<times> runtime \<times> store" where
  "await_find env call biz r s =
     (let r1 = step (Invoke call biz) r in
      case map_of (suspended r1) call of
        None \<Rightarrow> ((case settled r1 call of None \<Rightarrow> Inl NeverSettles | Some v \<Rightarrow> v), r1, s)
      | Some (b, waitingList) \<Rightarrow>
          (case Profile_findOne env [(''msgBiz'', b)] s of
             (answer, s1) \<Rightarrow>
               (let r2 = step (Answer call answer) r1 in
                ((case settled r2 call of None \<Rightarrow> Inl NeverSettles | Some v \<Rightarrow> v), r2, s1))))"

section \<open>savePostsData\<close>

text \<open>
  A listing entry as the platform sends it: \<^verbatim>\<open>app_msg_ext_info\<close> is the primary
  message object, with the sub-items in its \<^verbatim>\<open>multi_app_msg_item_list\<close>;
  \<^verbatim>\<open>comm_msg_info.datetime\<close> is the publish time in epoch seconds. \<open>None\<close> is a
  property that is missing.
\<close>

datatype appmsg =
  AppMsg (title: "string option") (content_url: "string option") (cover: jsval)
    (digest: jsval) (source_url: jsval) (author: jsval) (copyright_stat: jsval)
    (multi_app_msg_item_list: "appmsg list option")

datatype comm_msg_info = CommMsgInfo (datetime: int)

record listing_entry =
  app_msg_ext_info :: "appmsg option"
  comm_msg_info :: "comm_msg_info option"

record candidate =
  appMsg :: appmsg
  publishAt :: jsval

text \<open>
  Lines 67-78, the body of \<^verbatim>\<open>postList.forEach\<close>: \<open>posts\<close> is the array being
  filled. Reading \<^verbatim>\<open>datetime\<close> of a missing \<^verbatim>\<open>comm_msg_info\<close> throws.
\<close>

definition collect_entry :: "listing_entry \<Rightarrow> candidate list \<Rightarrow> error + candidate list" where
  "collect_entry post posts =
     (case app_msg_ext_info post of
        None \<Rightarrow> Inr posts
      | Some am \<Rightarrow>
          (case comm_msg_info post of
             None \<Rightarrow> Inl TypeError
           | Some info \<Rightarrow>
               (let at = JDate (datetime info * 1000);
                    posts1 = posts @ [\<lparr>appMsg = am, publishAt = at\<rparr>] in
                case multi_app_msg_item_list am of
                  None \<Rightarrow> Inr posts1
                | Some multiAppMsg \<Rightarrow>
                    if \<not> (length multiAppMsg > 0) then Inr posts1
                    else Inr (posts1 @ map (\<lambda>sub. \<lparr>appMsg = sub, publishAt = at\<rparr>) multiAppMsg))))"

fun collect :: "listing_entry list \<Rightarrow> candidate list \<Rightarrow> error + candidate list" where
  "collect [] posts = Inr posts"
| "collect (post # postList) posts =
     (case collect_entry post posts of
        Inl e \<Rightarrow> Inl e
      | Inr posts1 \<Rightarrow> collect postList posts1)"

text \<open>
  Lines 84-104, the callback of \<^verbatim>\<open>posts.map\<close>: \<open>None\<close> is the \<^verbatim>\<open>undefined\<close>
  of a unit without a title or a link.
\<close>

definition save_candidate :: "env \<Rightarrow> candidate \<Rightarrow> store \<Rightarrow> (error + obj option) \<times> store" where
  "save_candidate env post s =
     (case (title (appMsg post), content_url (appMsg post)) of
        (Some t, Some l) \<Rightarrow>
          if \<not> (t \<noteq> [] \<and> l \<noteq> []) then (Inr None, s)
          else
            (let link = escape2Html env l;
                 ttl = escape2Html env t;
                 query = url_query env link;
                 msgBiz = fld query ''__biz'';
                 msgMid = fld query ''mid'';
                 msgIdx = fld query ''idx'';
                 updateQuery =
                   [(''title'', JStr ttl), (''link'', JStr link),
                    (''publishAt'', publishAt post), (''cover'', cover (appMsg post)),
                    (''digest'', digest (appMsg post)),
                    (''sourceUrl'', source_url (appMsg post)),
                    (''author'', author (appMsg post)),
                    (''copyrightStat'', copyright_stat (appMsg post))]
             in Post_findOneAndUpdate env (identity_filter msgBiz msgMid msgIdx) updateQuery True s)
      | _ \<Rightarrow> (Inr None, s))"

text \<open>Line 107: \<^verbatim>\<open>savedPosts.filter(p => p)\<close>.\<close>

fun filter_truthy :: "obj option list \<Rightarrow> obj list" where
  "filter_truthy [] = []"
| "filter_truthy (None # ps) = filter_truthy ps"
| "filter_truthy (Some p # ps) = p # filter_truthy ps"

text \<open>
  Lines 109-114: the profile of the first saved post is looked up through the handler
  created on line 81 and used for a log line only; the lookup is awaited.
\<close>

definition lookup_first_profile :: "env \<Rightarrow> obj list \<Rightarrow> store \<Rightarrow> (error + unit) \<times> store" where
  "lookup_first_profile env savedPosts s =
     (case savedPosts of
        [] \<Rightarrow> (Inr (), s)
      | p0 # _ \<Rightarrow>
          (case await_find env 0 (fld p0 ''msgBiz'') new_runtime s of
             (Inl e, _, s1) \<Rightarrow> (Inl e, s1)
           | (Inr profile, _, s1) \<Rightarrow> (Inr (), s1)))"

text \<open>Line 121 and line 123: the publish-history recorder and the queue-length query.\<close>

definition savePubRecords :: "env \<Rightarrow> obj list \<Rightarrow> store \<Rightarrow> (error + unit) \<times> store" where
  "savePubRecords env savedPosts s =
     (let s1 = s\<lparr>oplog := oplog s @ [SavePubRecords savedPosts]\<rparr> in
      if rejects env (SavePubRecords savedPosts) then (Inl StoreError, s1) else (Inr (), s1))"

definition redis_llen :: "env \<Rightarrow> store \<Rightarrow> (error + unit) \<times> store" where
  "redis_llen env s =
     (let s1 = s\<lparr>oplog := oplog s @ [RedisLlen]\<rparr> in
      if rejects env RedisLlen then (Inl StoreError, s1) else (Inr (), s1))"

definition savePostsData :: "env \<Rightarrow> listing_entry list \<Rightarrow> store \<Rightarrow> (error + obj list) \<times> store" where
  "savePostsData env postList s =
     (case collect postList [] of
        Inl e \<Rightarrow> (Inl e, s)
      | Inr posts \<Rightarrow>
          (case promise_all (save_candidate env) posts s of
             (Inl e, s1) \<Rightarrow> (Inl e, s1)
           | (Inr res, s1) \<Rightarrow>
               (let savedPosts = filter_truthy res in
                case lookup_first_profile env savedPosts s1 of
                  (Inl e, s2) \<Rightarrow> (Inl e, s2)
                | (Inr _, s2) \<Rightarrow>
                    (case savePubRecords env savedPosts s2 of
                       (Inl e, s3) \<Rightarrow> (Inl e, s3)
                     | (Inr _, s3) \<Rightarrow>
                         (case redis_llen env s3 of
                            (Inl e, s4) \<Rightarrow> (Inl e, s4)
                          | (Inr _, s4) \<Rightarrow> (Inr savedPosts, s4))))))"

section \<open>getPostDetail\<close>

subsection \<open>Searching the document\<close>

definition starts_with :: "string \<Rightarrow> string \<Rightarrow> bool" where
  "starts_with p s = (take (length p) s = p)"

text \<open>\<^verbatim>\<open>body.indexOf(p) > -1\<close>.\<close>

fun contains :: "string \<Rightarrow> string \<Rightarrow> bool" where
  "contains p [] = (p = [])"
| "contains p (c # cs) = (starts_with p (c # cs) \<or> contains p cs)"

text \<open>
  The regular expressions of lines 169-184 have three shapes, a literal prefix and a
  literal suffix around one group: \<^verbatim>\<open>(.+?)\<close>, \<^verbatim>\<open>(.*?)\<close> or \<^verbatim>\<open>(\d+)\<close>.
  \<^verbatim>\<open>getTarget\<close> returns the group of the leftmost match, or \<^verbatim>\<open>undefined\<close>. A dot
  matches anything but a line terminator (LF, CR, U+2028, U+2029); the lazy group stops
  at the first place where the suffix follows. Prefixes and suffixes are ASCII, so on
  UTF-8 bytes the matches are those of the code on UTF-16 units.
\<close>

datatype regexp =
    LazyPlus string string
  | LazyStar string string
  | Digits string string

definition line_terminator :: "string \<Rightarrow> bool" where
  "line_terminator s =
     (starts_with [CHR 0x0A] s \<or> starts_with [CHR 0x0D] s \<or>
      starts_with [CHR 0xE2, CHR 0x80, CHR 0xA8] s \<or>
      starts_with [CHR 0xE2, CHR 0x80, CHR 0xA9] s)"

fun lazy_dots :: "bool \<Rightarrow> string \<Rightarrow> string \<Rightarrow> string option" where
  "lazy_dots may_stop suf [] = (if may_stop \<and> suf = [] then Some [] else None)"
| "lazy_dots may_stop suf (c # cs) =
     (if may_stop \<and> starts_with suf (c # cs) then Some []
      else if line_terminator (c # cs) then None
      else map_option ((#) c) (lazy_dots True suf cs))"

definition is_digit :: "char \<Rightarrow> bool" where
  "is_digit c = (48 \<le> (of_char c :: nat) \<and> (of_char c :: nat) \<le> 57)"

definition group_at :: "regexp \<Rightarrow> string \<Rightarrow> string option" where
  "group_at re s =
     (case re of
        LazyPlus pre suf \<Rightarrow>
          if starts_with pre s then lazy_dots False suf (drop (length pre) s) else None
      | LazyStar pre suf \<Rightarrow>
          if starts_with pre s then lazy_dots True suf (drop (length pre) s) else None
      | Digits pre suf \<Rightarrow>
          if starts_with pre s
          then (let rest = drop (length pre) s; ds = takeWhile is_digit rest in
                if ds \<noteq> [] \<and> starts_with suf (dropWhile is_digit rest) then Some ds else None)
          else None)"

fun first_group :: "regexp \<Rightarrow> string \<Rightarrow> string option" where
  "first_group re [] = group_at re []"
| "first_group re (c # cs) =
     (case group_at re (c # cs) of
        Some t \<Rightarrow> Some t
      | None \<Rightarrow> first_group re cs)"

definition getTarget :: "string \<Rightarrow> regexp \<Rightarrow> jsval" where
  "getTarget body re = (case first_group re body of None \<Rightarrow> Undefined | Some t \<Rightarrow> JStr t)"

text \<open>
  The test of line 172 for a Chinese character: some character of the string lies between
  U+4E00 and U+9FA5, that is, some three-byte UTF-8 sequence decodes into that range.
\<close>

fun has_cjk :: "string \<Rightarrow> bool" where
  "has_cjk (a # b # c # cs) =
     ((let x = (of_char a :: nat); y = (of_char b :: nat); z = (of_char c :: nat);
           cp = (x - 224) * 4096 + (y - 128) * 64 + (z - 128)
       in 224 \<le> x \<and> x < 240 \<and> 128 \<le> y \<and> y < 192 \<and> 128 \<le> z \<and> z < 192 \<and>
          19968 \<le> cp \<and> cp \<le> 40869)
      \<or> has_cjk (b # c # cs))"
| "has_cjk cs = False"

definition test_cjk :: "jsval \<Rightarrow> bool" where
  "test_cjk v = (case v of JStr t \<Rightarrow> has_cjk t | _ \<Rightarrow> False)"

text \<open>\<^verbatim>\<open>parseInt\<close> on the digits captured by \<^verbatim>\<open>(\d+)\<close>.\<close>

definition parseInt :: "string \<Rightarrow> int" where
  "parseInt ds = fold (\<lambda>c n. 10 * n + (int (of_char c) - 48)) ds 0"

definition dquote :: string where
  "dquote = [CHR 0x22]"

definition squote :: string where
  "squote = [CHR 0x27]"

text \<open>
  Lines 169-184: the local variables read from the document, as an object keyed by
  their names.
\<close>

definition extract_fields :: "string \<Rightarrow> obj" where
  "extract_fields body =
     (let wechatId0 = getTarget body
            (LazyPlus (''<span class='' @ dquote @ ''profile_meta_value'' @ dquote @ ''>'') ''</span>'');
          username = getTarget body (LazyPlus (''var user_name = '' @ dquote) dquote);
          wechatId = (if truthy wechatId0 \<and> test_cjk wechatId0 then username else wechatId0);
          ttl = getTarget body (LazyPlus (''var msg_title = '' @ dquote) (dquote @ '';''));
          ct = getTarget body (Digits (''var ct = '' @ dquote) (dquote @ '';''));
          at = (case ct of JStr ds \<Rightarrow> if ds \<noteq> [] then JDate (parseInt ds * 1000) else ct | _ \<Rightarrow> ct);
          sourceUrl = getTarget body (LazyStar (''var msg_source_url = '' @ squote) (squote @ '';''));
          cov = getTarget body (LazyPlus (''var msg_cdn_url = '' @ dquote) (dquote @ '';''));
          dig = getTarget body (LazyPlus (''var msg_desc = '' @ dquote) (dquote @ '';''));
          headimg = getTarget body (LazyPlus (''var hd_head_img = '' @ dquote) dquote);
          nickname = getTarget body (LazyPlus (''var nickname = '' @ dquote) dquote)
      in [(''wechatId'', wechatId), (''username'', username), (''title'', ttl),
          (''publishAt'', at), (''sourceUrl'', sourceUrl), (''cover'', cov),
          (''digest'', dig), (''headimg'', headimg), (''nickname'', nickname)])"

subsection \<open>The three writes\<close>

text \<open>\<^verbatim>\<open>if (v) updateObj.k = v\<close>.\<close>

definition set_if_truthy :: "string \<times> jsval \<Rightarrow> obj \<Rightarrow> obj" where
  "set_if_truthy kv ob = (if truthy (snd kv) then AList.update (fst kv) (snd kv) ob else ob)"

text \<open>Line 191 and line 210: the existing record has all its completeness fields.\<close>

definition complete_post :: "obj option \<Rightarrow> bool" where
  "complete_post doc =
     (case doc of
        None \<Rightarrow> False
      | Some d \<Rightarrow> truthy (fld d ''title'') \<and> truthy (fld d ''link'') \<and> truthy (fld d ''wechatId''))"

definition complete_profile :: "obj option \<Rightarrow> bool" where
  "complete_profile profile =
     (case profile of
        None \<Rightarrow> False
      | Some d \<Rightarrow>
          truthy (fld d ''wechatId'') \<and> truthy (fld d ''username'') \<and> truthy (fld d ''headimg''))"

text \<open>Lines 192-198 and lines 211-215: the two update objects.\<close>

definition post_updateObj :: "jsval \<times> jsval \<times> jsval \<Rightarrow> jsval \<Rightarrow> obj \<Rightarrow> obj" where
  "post_updateObj ident link x =
     (case ident of
        (msgBiz, msgMid, msgIdx) \<Rightarrow>
          fold set_if_truthy
            [(''title'', fld x ''title''), (''wechatId'', fld x ''wechatId''),
             (''publishAt'', fld x ''publishAt''), (''sourceUrl'', fld x ''sourceUrl''),
             (''cover'', fld x ''cover''), (''digest'', fld x ''digest'')]
            [(''msgBiz'', msgBiz), (''msgMid'', msgMid), (''msgIdx'', msgIdx), (''link'', link)])"

definition profile_updateObj :: "jsval \<Rightarrow> obj \<Rightarrow> obj" where
  "profile_updateObj msgBiz x =
     fold set_if_truthy
       [(''title'', fld x ''nickname''), (''wechatId'', fld x ''wechatId''),
        (''username'', fld x ''username''), (''headimg'', fld x ''headimg'')]
       [(''msgBiz'', msgBiz)]"

text \<open>
  Lines 188-206: the article is looked up and, unless it is complete, its basic fields
  are written. The document found is returned: the content step reads it again.
\<close>

definition save_basic_info ::
  "env \<Rightarrow> jsval \<times> jsval \<times> jsval \<Rightarrow> jsval \<Rightarrow> obj \<Rightarrow> store \<Rightarrow> (error + obj option) \<times> store" where
  "save_basic_info env ident link x s =
     (case ident of
        (msgBiz, msgMid, msgIdx) \<Rightarrow>
          (case Post_findOne env (identity_filter msgBiz msgMid msgIdx) s of
             (Inl e, s1) \<Rightarrow> (Inl e, s1)
           | (Inr doc, s1) \<Rightarrow>
               if \<not> complete_post doc
               then (case Post_findOneAndUpdate env (identity_filter msgBiz msgMid msgIdx)
                            (post_updateObj ident link x) False s1 of
                       (Inl e, s2) \<Rightarrow> (Inl e, s2)
                     | (Inr _, s2) \<Rightarrow> (Inr doc, s2))
               else (Inr doc, s1)))"

text \<open>Lines 209-222: the same for the publisher's profile.\<close>

definition save_profile_info :: "env \<Rightarrow> jsval \<Rightarrow> obj \<Rightarrow> store \<Rightarrow> (error + unit) \<times> store" where
  "save_profile_info env msgBiz x s =
     (case Profile_findOne env [(''msgBiz'', msgBiz)] s of
        (Inl e, s1) \<Rightarrow> (Inl e, s1)
      | (Inr profile, s1) \<Rightarrow>
          if \<not> complete_profile profile
          then (case Profile_findOneAndUpdate env [(''msgBiz'', msgBiz)]
                       (profile_updateObj msgBiz x) False s1 of
                  (Inl e, s2) \<Rightarrow> (Inl e, s2)
                | (Inr _, s2) \<Rightarrow> (Inr (), s2))
          else (Inr (), s1))"

text \<open>
  \<^verbatim>\<open>String.prototype.trim\<close>: white space and line terminators are removed from both
  ends (here as UTF-8 byte sequences).
\<close>

definition white_space :: "string list" where
  "white_space =
     [[CHR 0x09], [CHR 0x0A], [CHR 0x0B], [CHR 0x0C], [CHR 0x0D], [CHR 0x20],
      [CHR 0xC2, CHR 0xA0], [CHR 0xE1, CHR 0x9A, CHR 0x80],
      [CHR 0xE2, CHR 0x80, CHR 0x80], [CHR 0xE2, CHR 0x80, CHR 0x81],
      [CHR 0xE2, CHR 0x80, CHR 0x82], [CHR 0xE2, CHR 0x80, CHR 0x83],
      [CHR 0xE2, CHR 0x80, CHR 0x84], [CHR 0xE2, CHR 0x80, CHR 0x85],
      [CHR 0xE2, CHR 0x80, CHR 0x86], [CHR 0xE2, CHR 0x80, CHR 0x87],
      [CHR 0xE2, CHR 0x80, CHR 0x88], [CHR 0xE2, CHR 0x80, CHR 0x89],
      [CHR 0xE2, CHR 0x80, CHR 0x8A], [CHR 0xE2, CHR 0x80, CHR 0xA8],
      [CHR 0xE2, CHR 0x80, CHR 0xA9], [CHR 0xE2, CHR 0x80, CHR 0xAF],
      [CHR 0xE2, CHR 0x81, CHR 0x9F], [CHR 0xE3, CHR 0x80, CHR 0x80],
      [CHR 0xEF, CHR 0xBB, CHR 0xBF]]"

function strip :: "string list \<Rightarrow> string \<Rightarrow> string" where
  "strip ws s =
     (case List.find (\<lambda>w. w \<noteq> [] \<and> starts_with w s) ws of
        None \<Rightarrow> s
      | Some w \<Rightarrow> strip ws (drop (length w) s))"
  by pat_completeness auto
termination
proof (relation "measure (\<lambda>(ws, s). length s)")
  show "wf (measure (\<lambda>(ws, s). length s))" by simp
next
  fix ws :: "string list" and s w :: string
  assume "List.find (\<lambda>w. w \<noteq> [] \<and> starts_with w s) ws = Some w"
  then have "w \<noteq> []" "starts_with w s"
    by (auto simp: find_Some_iff)
  then have "s \<noteq> []"
    by (auto simp: starts_with_def)
  with \<open>w \<noteq> []\<close> show "((ws, drop (length w) s), (ws, s)) \<in> measure (\<lambda>(ws, s). length s)"
    by simp
qed

definition trim :: "string \<Rightarrow> string" where
  "trim s = rev (strip (map rev white_space) (rev (strip white_space s)))"

text \<open>
  Lines 228-269: the content body. \<open>doc\<close> is the article found on line 188. Only the
  \<^verbatim>\<open>html\<close> mode captures anything; \<^verbatim>\<open>content\<close> is never assigned.
\<close>

definition save_content ::
  "env \<Rightarrow> jsval \<times> jsval \<times> jsval \<Rightarrow> string \<Rightarrow> obj option \<Rightarrow> store \<Rightarrow> (error + unit) \<times> store" where
  "save_content env ident body doc s =
     (case ident of
        (msgBiz, msgMid, msgIdx) \<Rightarrow>
          if isSavePostContent env then
            (let shouldSaveToDb =
                   (case doc of
                      None \<Rightarrow> True
                    | Some d \<Rightarrow>
                        if truthy (fld d ''html'') \<and> saveContentType env = ''html'' then True
                        else if truthy (fld d ''content'') \<and> saveContentType env = ''text'' then True
                        else True)
             in
             if shouldSaveToDb then
               (let content = Undefined;
                    html0 = (if saveContentType env = ''html''
                             then JStr (case js_content_html env body of None \<Rightarrow> [] | Some h \<Rightarrow> h)
                             else Undefined);
                    html = (case html0 of JStr h \<Rightarrow> if h \<noteq> [] then JStr (trim h) else html0 | _ \<Rightarrow> html0)
                in
                if truthy content \<or> truthy html then
                  (let updateObj =
                         AList.update ''imported'' (JBool False)
                           (AList.update ''viewed'' (JBool True)
                              (set_if_truthy (''html'', html)
                                 [(''msgBiz'', msgBiz), (''msgMid'', msgMid), (''msgIdx'', msgIdx)]))
                   in case Post_findOneAndUpdate env (identity_filter msgBiz msgMid msgIdx)
                             updateObj False s of
                        (Inl e, s1) \<Rightarrow> (Inl e, s1)
                      | (Inr _, s1) \<Rightarrow> (Inr (), s1))
                else (Inr (), s))
             else (Inr (), s))
          else (Inr (), s))"

subsection \<open>The function\<close>

text \<open>Lines 150-157: the write made for a document that carries an invalidation marker.\<close>

definition mark_failed :: "env \<Rightarrow> jsval \<times> jsval \<times> jsval \<Rightarrow> store \<Rightarrow> (error + unit) \<times> store" where
  "mark_failed env ident s =
     (case ident of
        (msgBiz, msgMid, msgIdx) \<Rightarrow>
          (case Post_findOneAndUpdate env (identity_filter msgBiz msgMid msgIdx)
                  [(''isFail'', JBool True)] False s of
             (Inl e, s1) \<Rightarrow> (Inl e, s1)
           | (Inr _, s1) \<Rightarrow> (Inr (), s1)))"

definition invalidated :: "string \<Rightarrow> bool" where
  "invalidated body = (contains ''global_error_msg'' body \<or> contains ''icon_msg warn'' body)"

definition getPostDetail :: "env \<Rightarrow> jsval \<Rightarrow> jsval \<Rightarrow> store \<Rightarrow> (error + unit) \<times> store" where
  "getPostDetail env link body s =
     (if \<not> truthy link then (Inr (), s)
      else
        (case getIdentifying env link body of
           Inl e \<Rightarrow> (Inl e, s)
         | Inr (msgBiz, msgMid, msgIdx) \<Rightarrow>
             if \<not> truthy msgBiz \<or> \<not> truthy msgMid \<or> \<not> truthy msgIdx then (Inr (), s)
             else
               (case getBody env link body of
                  Inl e \<Rightarrow> (Inl e, s)
                | Inr fetched \<Rightarrow>
                    if invalidated fetched then mark_failed env (msgBiz, msgMid, msgIdx) s
                    else
                      (let x = extract_fields fetched in
                       case save_basic_info env (msgBiz, msgMid, msgIdx) link x s of
                         (Inl e, s1) \<Rightarrow> (Inl e, s1)
                       | (Inr doc, s1) \<Rightarrow>
                           (case save_profile_info env msgBiz x s1 of
                              (Inl e, s2) \<Rightarrow> (Inl e, s2)
                            | (Inr _, s2) \<Rightarrow>
                                save_content env (msgBiz, msgMid, msgIdx) fetched doc s2)))))"

section \<open>An environment for the examples\<close>

text \<open>
  Modelled from the spec: \<^verbatim>\<open>helper.escape2Html\<close> (\<^verbatim>\<open>require('../utils/helper')\<close>,
  not among the sources), which the spec describes as "decode HTML-escaped title and link":
  the entities for \<^verbatim>\<open><\<close>, \<^verbatim>\<open>>\<close>, the space, \<^verbatim>\<open>&\<close> and the double quote are
  replaced, in one pass from the left.
\<close>

fun html_unescape :: "string \<Rightarrow> string" where
  "html_unescape [] = []"
| "html_unescape (c # cs) =
     (if starts_with ''&lt;'' (c # cs) then CHR ''<'' # html_unescape (drop 3 cs)
      else if starts_with ''&gt;'' (c # cs) then CHR ''>'' # html_unescape (drop 3 cs)
      else if starts_with ''&nbsp;'' (c # cs) then CHR '' '' # html_unescape (drop 5 cs)
      else if starts_with ''&amp;'' (c # cs) then CHR ''&'' # html_unescape (drop 4 cs)
      else if starts_with ''&quot;'' (c # cs) then CHR 0x22 # html_unescape (drop 5 cs)
      else c # html_unescape cs)"

text \<open>
  Node's \<^verbatim>\<open>url.parse(link, true).query\<close>: the part of the link between the first
  \<^verbatim>\<open>?\<close> and the first \<^verbatim>\<open>#\<close> is cut at every \<^verbatim>\<open>&\<close>, each non-empty piece at
  its first \<^verbatim>\<open>=\<close>; \<^verbatim>\<open>+\<close> becomes a space and \<^verbatim>\<open>%XX\<close> the byte it names; a name
  that occurs again collects its values in an array. (Node stops after 1000 parameters;
  the links here are shorter.)
\<close>

fun split_on :: "char \<Rightarrow> string \<Rightarrow> string list" where
  "split_on sep [] = [[]]"
| "split_on sep (c # cs) =
     (if c = sep then [] # split_on sep cs
      else (case split_on sep cs of [] \<Rightarrow> [[c]] | w # ws \<Rightarrow> (c # w) # ws))"

definition hex_value :: "char \<Rightarrow> nat option" where
  "hex_value c =
     (let n = (of_char c :: nat) in
      if 48 \<le> n \<and> n \<le> 57 then Some (n - 48)
      else if 65 \<le> n \<and> n \<le> 70 then Some (n - 55)
      else if 97 \<le> n \<and> n \<le> 102 then Some (n - 87)
      else None)"

fun qs_unescape :: "string \<Rightarrow> string" where
  "qs_unescape (c # h # l # cs) =
     (if c = CHR ''%'' then
        (case (hex_value h, hex_value l) of
           (Some a, Some b) \<Rightarrow> char_of (16 * a + b) # qs_unescape cs
         | _ \<Rightarrow> c # qs_unescape (h # l # cs))
      else (if c = CHR ''+'' then CHR '' '' else c) # qs_unescape (h # l # cs))"
| "qs_unescape (c # cs) = (if c = CHR ''+'' then CHR '' '' else c) # qs_unescape cs"
| "qs_unescape [] = []"

definition query_pair :: "string \<Rightarrow> string \<times> string" where
  "query_pair seg =
     (qs_unescape (takeWhile (\<lambda>c. c \<noteq> CHR ''='') seg),
      qs_unescape (drop 1 (dropWhile (\<lambda>c. c \<noteq> CHR ''='') seg)))"

definition add_param :: "string \<times> string \<Rightarrow> obj \<Rightarrow> obj" where
  "add_param kv q =
     (case map_of q (fst kv) of
        None \<Rightarrow> q @ [(fst kv, JStr (snd kv))]
      | Some (JArr vs) \<Rightarrow> AList.update (fst kv) (JArr (vs @ [JStr (snd kv)])) q
      | Some v \<Rightarrow> AList.update (fst kv) (JArr [v, JStr (snd kv)]) q)"

definition node_url_query :: "string \<Rightarrow> obj" where
  "node_url_query link =
     (let before_hash = takeWhile (\<lambda>c. c \<noteq> CHR ''#'') link;
          search = drop 1 (dropWhile (\<lambda>c. c \<noteq> CHR ''?'') before_hash)
      in fold add_param
           (map query_pair (filter (\<lambda>seg. seg \<noteq> []) (split_on CHR ''&'' search))) [])"

text \<open>
  Modelled from the spec: \<^verbatim>\<open>ContentHandler\<close> (\<^verbatim>\<open>require('../utils/contentHandler')\<close>,
  not among the sources). The spec says: "resolve CanonicalArticleId from the supplied
  link (or from a pre-fetched document)" and "fetch the detail document if not supplied".
  The examples resolve the identity from the link and always supply the document.
\<close>

definition link_identifying :: "jsval \<Rightarrow> jsval \<Rightarrow> error + (jsval \<times> jsval \<times> jsval)" where
  "link_identifying link body =
     (case link of
        JStr l \<Rightarrow>
          (let q = node_url_query l in Inr (fld q ''__biz'', fld q ''mid'', fld q ''idx''))
      | _ \<Rightarrow> Inr (Undefined, Undefined, Undefined))"

definition given_body :: "jsval \<Rightarrow> jsval \<Rightarrow> error + string" where
  "given_body link body = (case body of JStr b \<Rightarrow> Inr b | _ \<Rightarrow> Inl FetchError)"

definition example_env :: env where
  "example_env =
     \<lparr>rejects = (\<lambda>op. False), escape2Html = html_unescape, url_query = node_url_query,
      getIdentifying = link_identifying, getBody = given_body,
      js_content_html = (\<lambda>body. None), isSavePostContent = True,
      saveContentType = ''html''\<rparr>"

definition empty_store :: store where
  "empty_store = \<lparr>Post = [], Profile = [], oplog = []\<rparr>"

section \<open>Vocabulary of the properties\<close>




definition record_A :: obj where
  "record_A = [(''msgBiz'', JStr ''A''), (''msgMid'', JStr ''1''), (''msgIdx'', JStr ''1''), (''x'', JNum 1)]"



definition record_no_mid :: obj where
  "record_no_mid = [(''msgBiz'', JStr ''A''), (''msgIdx'', JStr ''1''), (''x'', JNum 1)]"


text \<open>
  The link of a unit that line 86 lets through (it has a non-empty title and a non-empty
  link), and the identity read from the query parameters of a link once it is
  HTML-unescaped (lines 88-94).
\<close>

definition kept_link :: "candidate \<Rightarrow> string option" where
  "kept_link u =
     (case (title (appMsg u), content_url (appMsg u)) of
        (Some t, Some l) \<Rightarrow> if t \<noteq> [] \<and> l \<noteq> [] then Some l else None
      | _ \<Rightarrow> None)"

definition link_identity :: "env \<Rightarrow> string \<Rightarrow> jsval \<times> jsval \<times> jsval" where
  "link_identity env l =
     (let query = url_query env (escape2Html env l)
      in (fld query ''__biz'', fld query ''mid'', fld query ''idx''))"

text \<open>An update object that names none of the three identity properties.\<close>

definition keeps_identity :: "obj \<Rightarrow> bool" where
  "keeps_identity sets = (''msgBiz'' \<notin> fst ` set sets \<and> ''msgMid'' \<notin> fst ` set sets \<and> ''msgIdx'' \<notin> fst ` set sets)"

text \<open>
  The batch gets as far as the lookup of line 110 (the units were collected and saved, and
  at least one was saved), and the store rejects that lookup.
\<close>

definition lookup_rejected :: "env \<Rightarrow> listing_entry list \<Rightarrow> store \<Rightarrow> bool" where
  "lookup_rejected env postList s =
     (case collect postList [] of
        Inl e \<Rightarrow> False
      | Inr units \<Rightarrow>
          (case fst (promise_all (save_candidate env) units s) of
             Inl e \<Rightarrow> False
           | Inr res \<Rightarrow>
               (case filter_truthy res of
                  [] \<Rightarrow> False
                | p0 # rest \<Rightarrow> rejects env (ProfileFindOne [(''msgBiz'', fld p0 ''msgBiz'')]))))"

text \<open>
  Examples: a listing entry with one sub-item, with HTML-escaped links; the same entry
  listed twice; a store that rejects the profile lookup; a stored profile.
\<close>

definition sub_item :: appmsg where
  "sub_item = AppMsg (Some ''Second'') (Some ''https://host/s?__biz=Bz1&amp;mid=Mid1&amp;idx=2'')
     Undefined Undefined Undefined Undefined Undefined None"

definition primary_item :: appmsg where
  "primary_item = AppMsg (Some ''First'') (Some ''https://host/s?__biz=Bz1&amp;mid=Mid1&amp;idx=1'')
     (JStr ''cover.jpg'') (JStr ''about'') (JStr []) (JStr ''me'') (JNum 11) (Some [sub_item])"

definition example_entry :: listing_entry where
  "example_entry = \<lparr>app_msg_ext_info = Some primary_item, comm_msg_info = Some (CommMsgInfo 1500000000)\<rparr>"

definition twice_listed :: "listing_entry list" where
  "twice_listed = [example_entry, example_entry]"

definition profile_lookup_rejected :: env where
  "profile_lookup_rejected =
     example_env\<lparr>rejects := (\<lambda>op. case op of ProfileFindOne flt \<Rightarrow> True | _ \<Rightarrow> False)\<rparr>"

definition some_profile :: obj where
  "some_profile = [(''msgBiz'', JStr ''Bz1''), (''title'', JStr ''Publisher'')]"

text \<open>
  The basic fields of an article (the seven properties that the update of lines 192-198
  sets besides the key), an update object that names none of them, the calls made between
  two stores, and the update objects of the writes among them.
\<close>

definition basic_fields :: "obj \<Rightarrow> jsval list" where
  "basic_fields d =
     map (fld d) [''title'', ''link'', ''wechatId'', ''publishAt'', ''sourceUrl'', ''cover'', ''digest'']"

definition keeps_basic_fields :: "obj \<Rightarrow> bool" where
  "keeps_basic_fields sets =
     (''title'' \<notin> fst ` set sets \<and> ''link'' \<notin> fst ` set sets \<and> ''wechatId'' \<notin> fst ` set sets \<and>
      ''publishAt'' \<notin> fst ` set sets \<and> ''sourceUrl'' \<notin> fst ` set sets \<and>
      ''cover'' \<notin> fst ` set sets \<and> ''digest'' \<notin> fst ` set sets)"

definition calls_made :: "store \<Rightarrow> store \<Rightarrow> store_op list" where
  "calls_made s s' = drop (length (oplog s)) (oplog s')"

fun post_writes :: "store_op list \<Rightarrow> obj list" where
  "post_writes [] = []"
| "post_writes (PostFindOneAndUpdate flt sets # ops) = sets # post_writes ops"
| "post_writes (op # ops) = post_writes ops"

fun profile_writes :: "store_op list \<Rightarrow> obj list" where
  "profile_writes [] = []"
| "profile_writes (ProfileFindOneAndUpdate flt sets # ops) = sets # profile_writes ops"
| "profile_writes (op # ops) = profile_writes ops"

text \<open>
  What a step of \<^verbatim>\<open>getPostDetail\<close> may do between two stores when the article under
  the key is complete, and when the profile is.
\<close>

definition gaps_only :: "jsval \<times> jsval \<times> jsval \<Rightarrow> store \<Rightarrow> store \<Rightarrow> bool" where
  "gaps_only ident s s' =
     (case ident of
        (b, m, i) \<Rightarrow>
          (complete_post (coll_findOne (identity_filter b m i) (Post s)) \<longrightarrow>
             list_all keeps_basic_fields (post_writes (calls_made s s')) \<and>
             map basic_fields (Post s') = map basic_fields (Post s)) \<and>
          (complete_profile (coll_findOne [(''msgBiz'', b)] (Profile s)) \<longrightarrow>
             profile_writes (calls_made s s') = [] \<and> Profile s' = Profile s))"

text \<open>At most one write on the article under the key, which leaves the basic fields alone.\<close>

definition article_write_only :: "jsval \<times> jsval \<times> jsval \<Rightarrow> store \<Rightarrow> store \<Rightarrow> bool" where
  "article_write_only ident s s' =
     (case ident of
        (b, m, i) \<Rightarrow>
          Profile s' = Profile s \<and>
          (oplog s' = oplog s \<and> Post s' = Post s \<or>
           (\<exists>sets. keeps_basic_fields sets \<and>
              oplog s' = oplog s @ [PostFindOneAndUpdate (identity_filter b m i) sets] \<and>
              (Post s' = Post s \<or>
               Post s' = snd (coll_findOneAndUpdate (identity_filter b m i) sets False (Post s))))))"

text \<open>
  Calls between two stores that write nothing to a complete article and nothing to a
  complete profile.
\<close>

definition harmless :: "jsval \<times> jsval \<times> jsval \<Rightarrow> store \<Rightarrow> store \<Rightarrow> bool" where
  "harmless ident s s' =
     (case ident of
        (b, m, i) \<Rightarrow>
          (\<exists>ops. oplog s' = oplog s @ ops \<and>
             (complete_post (coll_findOne (identity_filter b m i) (Post s)) \<longrightarrow>
                post_writes ops = [] \<and> Post s' = Post s) \<and>
             (complete_profile (coll_findOne [(''msgBiz'', b)] (Profile s)) \<longrightarrow>
                profile_writes ops = [] \<and> Profile s' = Profile s)))"

text \<open>The write of lines 151-155, and the record the store holds under the key before it.\<close>

definition isFail_write :: "jsval \<times> jsval \<times> jsval \<Rightarrow> store_op" where
  "isFail_write ident =
     (case ident of (b, m, i) \<Rightarrow> PostFindOneAndUpdate (identity_filter b m i) [(''isFail'', JBool True)])"

definition article_before :: "jsval \<times> jsval \<times> jsval \<Rightarrow> store \<Rightarrow> obj" where
  "article_before ident s =
     (case ident of
        (b, m, i) \<Rightarrow>
          (case coll_findOne (identity_filter b m i) (Post s) of
             None \<Rightarrow> identity_filter b m i
           | Some d0 \<Rightarrow> d0))"

text \<open>
  Examples for \<^verbatim>\<open>getPostDetail\<close>: a link, the key it resolves to, a page that was
  taken down, an article page, a store that holds a complete article (with its body) and
  a complete profile, and a parser that finds a content container in the page.
\<close>

definition example_link :: jsval where
  "example_link = JStr ''https://host/s?__biz=Bz1&mid=Mid1&idx=2''"

definition example_key :: obj where
  "example_key = identity_filter (JStr ''Bz1'') (JStr ''Mid1'') (JStr ''2'')"

definition removed_page :: jsval where
  "removed_page = JStr ''<div class=global_error_msg>gone</div>''"

definition article_page :: jsval where
  "article_page =
     JStr (''var user_name = '' @ dquote @ ''gh_1'' @ dquote @ ''; var msg_title = '' @ dquote @
           ''Hello'' @ dquote @ ''; <div id=js_content> <p>new</p> </div>'')"

text \<open>A page that carries a value for every basic field and every profile field.\<close>

definition detailed_page :: jsval where
  "detailed_page =
     JStr (''<span class='' @ dquote @ ''profile_meta_value'' @ dquote @ ''>wx_1</span> '' @
           ''var user_name = '' @ dquote @ ''gh_1'' @ dquote @
           ''; var nickname = '' @ dquote @ ''Nick'' @ dquote @
           ''; var hd_head_img = '' @ dquote @ ''http://img/1'' @ dquote @
           ''; var msg_title = '' @ dquote @ ''Hello'' @ dquote @
           ''; var ct = '' @ dquote @ ''1500000000'' @ dquote @
           ''; var msg_source_url = '' @ squote @ ''http://src'' @ squote @
           ''; var msg_cdn_url = '' @ dquote @ ''http://cover'' @ dquote @
           ''; var msg_desc = '' @ dquote @ ''Summary'' @ dquote @
           ''; <div id=js_content> <p>new</p> </div>'')"

definition complete_article :: obj where
  "complete_article =
     [(''msgBiz'', JStr ''Bz1''), (''msgMid'', JStr ''Mid1''), (''msgIdx'', JStr ''2''),
      (''title'', JStr ''Old title''), (''link'', JStr ''https://host/old''),
      (''wechatId'', JStr ''gh_old''), (''html'', JStr ''<p>old</p>'')]"

definition complete_publisher :: obj where
  "complete_publisher =
     [(''msgBiz'', JStr ''Bz1''), (''wechatId'', JStr ''gh_old''), (''username'', JStr ''gh_0''),
      (''headimg'', JStr ''http://img/0'')]"

definition complete_store :: store where
  "complete_store = \<lparr>Post = [complete_article], Profile = [complete_publisher], oplog = []\<rparr>"

definition content_env :: env where
  "content_env = example_env\<lparr>js_content_html := (\<lambda>body. Some '' <p>new</p> '')\<rparr>"

text \<open>
  Schedules of the handler: the calls a schedule makes, the calls it answers, and the
  calls of \<^verbatim>\<open>find(k)\<close> in it, in order.
\<close>

fun invoked :: "event list \<Rightarrow> nat list" where
  "invoked [] = []"
| "invoked (Invoke call biz # evs) = call # invoked evs"
| "invoked (Answer call answer # evs) = invoked evs"

fun answered :: "event list \<Rightarrow> nat list" where
  "answered [] = []"
| "answered (Invoke call biz # evs) = answered evs"
| "answered (Answer call answer # evs) = call # answered evs"

fun callers_of :: "jsval \<Rightarrow> event list \<Rightarrow> nat list" where
  "callers_of k [] = []"
| "callers_of k (Invoke call biz # evs) =
     (if biz = k then call # callers_of k evs else callers_of k evs)"
| "callers_of k (Answer call answer # evs) = callers_of k evs"

text \<open>
  The keys with a query in flight. A key is unresolved when neither map knows it and no
  query for it is in flight; it is resolved to \<open>doc\<close> (a document, or \<open>None\<close> for
  the \<^verbatim>\<open>null\<close> that stands for "no such profile") when \<open>profileMap\<close> holds
  \<open>doc\<close> for it and no query for it is in flight.
\<close>

definition in_flight :: "runtime \<Rightarrow> jsval set" where
  "in_flight r = (\<lambda>e. fst (snd e)) ` set (suspended r)"

definition unresolved :: "runtime \<Rightarrow> jsval \<Rightarrow> bool" where
  "unresolved r k =
     (profileMap (this r) k = None \<and> profileWaitingMap (this r) k = None \<and> k \<notin> in_flight r)"

definition resolved :: "runtime \<Rightarrow> jsval \<Rightarrow> obj option \<Rightarrow> bool" where
  "resolved r k doc = (profileMap (this r) k = Some doc \<and> k \<notin> in_flight r)"

text \<open>
  The query of \<open>leader\<close> for \<open>k\<close> is in flight: the leader is suspended with the
  array at address \<open>a\<close>, which is the one the map holds for \<open>k\<close> and which holds
  at least the calls \<open>fs\<close>; no other call is suspended for \<open>k\<close>.
\<close>

definition flying :: "runtime \<Rightarrow> jsval \<Rightarrow> nat \<Rightarrow> nat \<Rightarrow> nat list \<Rightarrow> bool" where
  "flying r k leader a fs =
     (profileMap (this r) k = None \<and> profileWaitingMap (this r) k = Some a \<and>
      a < length (arrays r) \<and> map_of (suspended r) leader = Some (k, a) \<and>
      (\<forall>(call, biz, waitingList) \<in> set (suspended r). biz = k \<longrightarrow> call = leader) \<and>
      set fs \<subseteq> set (arrays r ! a))"

text \<open>Lines 110 and 42: the profile queries among the calls made on the store.\<close>

fun profile_lookups :: "store_op list \<Rightarrow> obj list" where
  "profile_lookups [] = []"
| "profile_lookups (ProfileFindOne flt # ops) = flt # profile_lookups ops"
| "profile_lookups (op # ops) = profile_lookups ops"

text \<open>
  Examples for the handler: a key, a schedule in which three calls for the key are made
  around calls for another key, and a handler in which the key is resolved to
  \<^verbatim>\<open>null\<close>.
\<close>

definition example_biz :: jsval where
  "example_biz = JStr ''Bz1''"

definition example_schedule :: "event list" where
  "example_schedule =
     [Invoke 1 example_biz, Invoke 2 (JStr ''Bz2''), Invoke 3 example_biz,
      Answer 2 (Inr None), Invoke 4 example_biz]"

definition absent_cached :: runtime where
  "absent_cached = run [Invoke 1 example_biz, Answer 1 (Inr None)] new_runtime"

text \<open>
  A key has been queried at most once, and once it has been queried one of the two maps
  knows it.
\<close>

definition queried_once :: "runtime \<Rightarrow> jsval \<Rightarrow> bool" where
  "queried_once r k =
     (count_list (queries r) k = 0 \<or>
      count_list (queries r) k = 1 \<and>
        (profileMap (this r) k = None \<longrightarrow> (\<exists>a. profileWaitingMap (this r) k = Some a)))"

text \<open>
  A key that no call will resolve: \<open>profileMap\<close> does not know it,
  \<open>profileWaitingMap\<close> still holds an array for it, and no query for it is in flight.
\<close>

definition stuck :: "runtime \<Rightarrow> jsval \<Rightarrow> bool" where
  "stuck r k =
     (profileMap (this r) k = None \<and> (\<exists>a. profileWaitingMap (this r) k = Some a) \<and>
      k \<notin> in_flight r)"

text \<open>Further examples: a unit without a title, and two calls whose query is rejected.\<close>

definition untitled_unit :: candidate where
  "untitled_unit =
     \<lparr>appMsg = AppMsg (Some []) (Some ''https://host/s?__biz=Bz1&amp;mid=Mid1&amp;idx=3'')
        Undefined Undefined Undefined Undefined Undefined None,
      publishAt = JDate 1500000000000\<rparr>"

definition rejected_schedule :: "event list" where
  "rejected_schedule = [Invoke 1 example_biz, Invoke 2 example_biz]"

section \<open>Objects and the store\<close>

lemma map_of_apply_set_other:
  "k \<notin> fst ` set sets \<Longrightarrow> map_of (apply_set sets d) k = map_of d k"
  unfolding apply_set_def
  by (induction sets arbitrary: d) (auto simp: update_conv')


lemma fld_apply_set_other: "k \<notin> fst ` set sets \<Longrightarrow> fld (apply_set sets d) k = fld d k"
  by (simp add: fld_def map_of_apply_set_other)





lemma promise_all_results:
  assumes "\<And>x s. x \<in> set xs \<Longrightarrow> \<exists>y s'. f x s = (Inr y, s') \<and> P x y"
  shows "\<exists>ys s'. promise_all f xs s = (Inr ys, s') \<and> list_all2 P xs ys"
  using assms
proof (induction xs arbitrary: s)
  case Nil
  then show ?case by simp
next
  case (Cons x xs)
  from Cons.prems[of x s] obtain y s1 where x: "f x s = (Inr y, s1)" "P x y" by auto
  from Cons.IH[of s1] Cons.prems obtain ys s2 where xs: "promise_all f xs s1 = (Inr ys, s2)" "list_all2 P xs ys"
    by (metis list.set_intros(2))
  from x xs show ?case by simp
qed

lemma find_update_first:
  assumes "List.find (matches flt) c = Some d0" "matches flt (apply_set sets d0)"
  shows "List.find (matches flt) (update_first flt sets c) = Some (apply_set sets d0)"
  using assms by (induction c) (auto split: if_splits)

lemma find_append_new:
  "List.find P c = None \<Longrightarrow> P d \<Longrightarrow> List.find P (c @ [d]) = Some d"
  by (induction c) (auto split: if_splits)

section \<open>upsertPosts: properties\<close>











lemma upsert_post_no_identity:
  "\<not> has_identity post \<Longrightarrow> upsert_post env post s = (Inr None, s)"
  by (auto simp: upsert_post_def has_identity_def Let_def)

lemma oplog_upsert_post:
  "oplog (snd (upsert_post env post s)) = oplog s @ (if has_identity post then [upsert_op post] else [])"
  by (auto simp: upsert_post_def has_identity_def upsert_op_def Post_findOneAndUpdate_def Let_def
      split: prod.splits)

lemma snd_promise_all_Cons:
  "snd (promise_all f (x # xs) s) = snd (promise_all f xs (snd (f x s)))"
  by (simp split: prod.splits)

lemma oplog_promise_all_upsert:
  "oplog (snd (promise_all (upsert_post env) ps s)) = oplog s @ map upsert_op (filter has_identity ps)"
proof (induction ps arbitrary: s)
  case Nil
  then show ?case by simp
next
  case (Cons p ps)
  show ?case
    unfolding snd_promise_all_Cons Cons.IH oplog_upsert_post by simp
qed

lemma upsert_post_returns:
  assumes "has_identity post \<longrightarrow> \<not> rejects env (upsert_op post)"
  shows "\<exists>r s'. upsert_post env post s = (Inr r, s') \<and> (\<not> has_identity post \<longrightarrow> r = None)"
proof (cases "has_identity post")
  case True
  with assms show ?thesis
    by (auto simp: upsert_post_def has_identity_def upsert_op_def Post_findOneAndUpdate_def Let_def
        split: prod.splits)
next
  case False
  then show ?thesis by (simp add: upsert_post_no_identity)
qed

text \<open>
  C10. A falsy argument makes \<^verbatim>\<open>upsertPosts\<close> return \<^verbatim>\<open>undefined\<close> and leaves the
  store as it was. A single record that lacks a component of its identity gives
  \<^verbatim>\<open>null\<close>, the store untouched. For an array, the calls made on the store are
  exactly one write per record that has its identity, in order, so none for a record
  that lacks a component; and when none of those writes is rejected the result is an
  array of the length of the input with \<^verbatim>\<open>null\<close> at the position of every record
  that lacks a component.
\<close>

theorem upsertPosts_without_identity:
  "upsertPosts env Falsy s = (Inr RUndefined, s) \<and>
   (\<not> has_identity post \<longrightarrow> upsertPosts env (Single post) s = (Inr (ROne None), s)) \<and>
   oplog (snd (upsertPosts env (Array ps) s)) = oplog s @ map upsert_op (filter has_identity ps) \<and>
   ((\<forall>p \<in> set ps. has_identity p \<longrightarrow> \<not> rejects env (upsert_op p)) \<longrightarrow>
      (\<exists>res s'. upsertPosts env (Array ps) s = (Inr (RArray res), s') \<and> length res = length ps \<and>
         (\<forall>i < length ps. \<not> has_identity (ps ! i) \<longrightarrow> res ! i = None)))"
proof (intro conjI impI)
  show "upsertPosts env Falsy s = (Inr RUndefined, s)"
    by (simp add: upsertPosts_def)
next
  assume "\<not> has_identity post"
  then show "upsertPosts env (Single post) s = (Inr (ROne None), s)"
    by (simp add: upsertPosts_def upsert_post_no_identity)
next
  have "snd (upsertPosts env (Array ps) s) = snd (promise_all (upsert_post env) ps s)"
    by (simp add: upsertPosts_def split: prod.splits sum.splits)
  then show "oplog (snd (upsertPosts env (Array ps) s)) = oplog s @ map upsert_op (filter has_identity ps)"
    by (simp add: oplog_promise_all_upsert)
next
  assume a: "\<forall>p \<in> set ps. has_identity p \<longrightarrow> \<not> rejects env (upsert_op p)"
  have "\<exists>res s'. promise_all (upsert_post env) ps s = (Inr res, s') \<and>
          list_all2 (\<lambda>p r. \<not> has_identity p \<longrightarrow> r = None) ps res"
    by (rule promise_all_results) (use a upsert_post_returns in blast)
  then show "\<exists>res s'. upsertPosts env (Array ps) s = (Inr (RArray res), s') \<and> length res = length ps \<and>
         (\<forall>i < length ps. \<not> has_identity (ps ! i) \<longrightarrow> res ! i = None)"
    by (auto simp: upsertPosts_def list_all2_conv_all_nth)
qed

theorem upsertPosts_without_identity_witness:
  "upsertPosts example_env Falsy empty_store = (Inr RUndefined, empty_store) \<and>
   \<not> has_identity record_no_mid \<and>
   upsertPosts example_env (Single record_no_mid) empty_store = (Inr (ROne None), empty_store) \<and>
   oplog (snd (upsertPosts example_env (Array [record_A, record_no_mid]) empty_store)) =
     [upsert_op record_A] \<and>
   \<not> rejects example_env (upsert_op record_A) \<and>
   (\<exists>res s'. upsertPosts example_env (Array [record_A, record_no_mid]) empty_store =
        (Inr (RArray res), s') \<and>
      length res = 2 \<and> res ! 1 = None)"
proof -
  have n: "\<not> has_identity record_no_mid" and a: "has_identity record_A"
    by (simp_all add: has_identity_def fld_def record_no_mid_def record_A_def)
  have ok: "\<not> rejects example_env (upsert_op record_A)"
    by (simp add: example_env_def)
  with n have h: "\<forall>p \<in> set [record_A, record_no_mid].
      has_identity p \<longrightarrow> \<not> rejects example_env (upsert_op p)"
    by simp
  from upsertPosts_without_identity[of example_env empty_store record_no_mid
      "[record_A, record_no_mid]"] n a h ok
  show ?thesis by (auto simp: empty_store_def)
qed

section \<open>savePostsData: properties\<close>



lemma matches_fld: "matches flt d \<Longrightarrow> (k, v) \<in> set flt \<Longrightarrow> fld d k = v"
  by (auto simp: matches_def list_all_iff)

lemma coll_findOne_matches: "coll_findOne flt c = Some d \<Longrightarrow> matches flt d"
  by (auto simp: coll_findOne_def find_Some_iff)

lemma identity_apply_set: "keeps_identity sets \<Longrightarrow> identity (apply_set sets d) = identity d"
  by (simp add: identity_def keeps_identity_def fld_apply_set_other)

lemma identity_identity_filter: "identity (identity_filter b m i) = (b, m, i)"
  by (simp add: identity_def identity_filter_def fld_def)

lemma identity_matches: "matches (identity_filter b m i) d \<Longrightarrow> identity d = (b, m, i)"
  by (simp add: identity_def identity_filter_def matches_def)

lemma findOneAndUpdate_new_identity:
  assumes "coll_findOneAndUpdate (identity_filter b m i) sets True c = (r, c')" "keeps_identity sets"
  shows "\<exists>d. r = Some d \<and> identity d = (b, m, i)"
proof (cases "coll_findOne (identity_filter b m i) c")
  case None
  with assms show ?thesis
    by (auto simp: coll_findOneAndUpdate_def Let_def identity_apply_set identity_identity_filter)
next
  case (Some d0)
  then have "identity d0 = (b, m, i)"
    by (intro identity_matches coll_findOne_matches)
  with Some assms show ?thesis
    by (auto simp: coll_findOneAndUpdate_def identity_apply_set)
qed

lemma save_candidate_result:
  assumes "save_candidate env u s = (Inr r, s')"
  shows "case kept_link u of None \<Rightarrow> r = None
         | Some l \<Rightarrow> \<exists>d. r = Some d \<and> identity d = link_identity env l"
proof (cases "kept_link u")
  case None
  with assms show ?thesis
    by (auto simp: save_candidate_def kept_link_def split: option.splits if_splits)
next
  case (Some l)
  then obtain t where tl: "title (appMsg u) = Some t" "content_url (appMsg u) = Some l" "t \<noteq> []" "l \<noteq> []"
    by (auto simp: kept_link_def split: option.splits if_splits)
  obtain b m i where id: "link_identity env l = (b, m, i)"
    by (cases "link_identity env l")
  then have bmi: "fld (url_query env (escape2Html env l)) ''__biz'' = b"
    "fld (url_query env (escape2Html env l)) ''mid'' = m"
    "fld (url_query env (escape2Html env l)) ''idx'' = i"
    by (simp_all add: link_identity_def Let_def)
  from assms tl bmi obtain sets c' where
    upd: "coll_findOneAndUpdate (identity_filter b m i) sets True (Post s) = (r, c')"
    and keeps: "keeps_identity sets"
    by (auto simp: save_candidate_def Let_def Post_findOneAndUpdate_def keeps_identity_def
        split: if_splits prod.splits)
  from findOneAndUpdate_new_identity[OF upd keeps] Some id show ?thesis by simp
qed

lemma promise_all_Inr:
  assumes "promise_all f xs s = (Inr ys, s')"
    and "\<And>x s y s'. x \<in> set xs \<Longrightarrow> f x s = (Inr y, s') \<Longrightarrow> P x y"
  shows "list_all2 P xs ys"
  using assms
proof (induction xs arbitrary: s ys s')
  case Nil
  then show ?case by simp
next
  case (Cons x xs)
  obtain r s1 where x: "f x s = (r, s1)" by (cases "f x s")
  obtain rs s2 where xs: "promise_all f xs s1 = (rs, s2)" by (cases "promise_all f xs s1")
  from Cons.prems(1) x xs obtain y ys' where r: "r = Inr y" "rs = Inr ys'" "ys = y # ys'"
    by (auto split: sum.splits)
  from Cons.prems(2)[of x s y s1] x r have "P x y" by simp
  moreover from Cons.IH[of s1 ys' s2] xs r Cons.prems(2) have "list_all2 P xs ys'" by auto
  ultimately show ?case using r by simp
qed

lemma identities_of_saved:
  assumes "list_all2 (\<lambda>u r. case kept_link u of None \<Rightarrow> r = None
         | Some l \<Rightarrow> \<exists>d. r = Some d \<and> identity d = link_identity env l) units res"
  shows "map identity (filter_truthy res) = map (link_identity env) (List.map_filter kept_link units)"
  using assms
  by (induction rule: list_all2_induct) (auto simp: map_filter_simps split: option.splits)

lemma fst_await_find_fresh:
  "fst (await_find env 0 biz new_runtime s) = fst (Profile_findOne env [(''msgBiz'', biz)] s)"
  by (auto simp: await_find_def new_runtime_def new_FindProfileHandler_def find_enter_def find_resume_def Let_def
      split: prod.splits sum.splits)

lemma store_await_find_fresh:
  "snd (snd (await_find env 0 biz new_runtime s)) = snd (Profile_findOne env [(''msgBiz'', biz)] s)"
  by (auto simp: await_find_def new_runtime_def new_FindProfileHandler_def find_enter_def find_resume_def Let_def
      split: prod.splits sum.splits)

lemma lookup_first_profile_result:
  "fst (lookup_first_profile env saved s) =
     (case saved of [] \<Rightarrow> Inr ()
      | p0 # _ \<Rightarrow> if rejects env (ProfileFindOne [(''msgBiz'', fld p0 ''msgBiz'')]) then Inl StoreError else Inr ())"
proof (cases saved)
  case Nil
  then show ?thesis by (simp add: lookup_first_profile_def)
next
  case (Cons p0 rest)
  obtain a r s1 where af: "await_find env 0 (fld p0 ''msgBiz'') new_runtime s = (a, r, s1)"
    by (cases "await_find env 0 (fld p0 ''msgBiz'') new_runtime s")
  with fst_await_find_fresh[of env "fld p0 ''msgBiz''" s]
  have "a = fst (Profile_findOne env [(''msgBiz'', fld p0 ''msgBiz'')] s)" by simp
  with Cons af show ?thesis
    by (auto simp: lookup_first_profile_def Profile_findOne_def Let_def split: sum.splits)
qed

text \<open>What \<^verbatim>\<open>savePostsData\<close> returns, step by step.\<close>

lemma fst_savePubRecords:
  "fst (savePubRecords env saved s) = (if rejects env (SavePubRecords saved) then Inl StoreError else Inr ())"
  by (simp add: savePubRecords_def Let_def)

lemma fst_redis_llen:
  "fst (redis_llen env s) = (if rejects env RedisLlen then Inl StoreError else Inr ())"
  by (simp add: redis_llen_def Let_def)

lemma savePostsData_result:
  "fst (savePostsData env postList s) =
     (case collect postList [] of
        Inl e \<Rightarrow> Inl e
      | Inr units \<Rightarrow>
          (case fst (promise_all (save_candidate env) units s) of
             Inl e \<Rightarrow> Inl e
           | Inr res \<Rightarrow>
               (case fst (lookup_first_profile env (filter_truthy res)
                            (snd (promise_all (save_candidate env) units s))) of
                  Inl e \<Rightarrow> Inl e
                | Inr _ \<Rightarrow>
                    if rejects env (SavePubRecords (filter_truthy res)) then Inl StoreError
                    else if rejects env RedisLlen then Inl StoreError
                    else Inr (filter_truthy res))))"
proof (cases "collect postList []")
  case (Inl e)
  then show ?thesis by (simp add: savePostsData_def)
next
  case (Inr units)
  obtain r s1 where p: "promise_all (save_candidate env) units s = (r, s1)"
    by (cases "promise_all (save_candidate env) units s")
  show ?thesis
  proof (cases r)
    case (Inl e)
    with Inr p show ?thesis by (simp add: savePostsData_def)
  next
    case res: (Inr res)
    obtain l s2 where l: "lookup_first_profile env (filter_truthy res) s1 = (l, s2)"
      by (cases "lookup_first_profile env (filter_truthy res) s1")
    obtain q s3 where q: "savePubRecords env (filter_truthy res) s2 = (q, s3)"
      by (cases "savePubRecords env (filter_truthy res) s2")
    obtain z s4 where z: "redis_llen env s3 = (z, s4)"
      by (cases "redis_llen env s3")
    from q have q': "q = (if rejects env (SavePubRecords (filter_truthy res)) then Inl StoreError else Inr ())"
      using fst_savePubRecords[of env "filter_truthy res" s2] by simp
    from z have z': "z = (if rejects env RedisLlen then Inl StoreError else Inr ())"
      using fst_redis_llen[of env s3] by simp
    from Inr p res l q z q' z' show ?thesis
      by (cases l) (simp_all add: savePostsData_def Let_def)
  qed
qed

lemma save_candidate_returns:
  assumes "\<forall>op. \<not> rejects env op"
  shows "\<exists>r s'. save_candidate env u s = (Inr r, s')"
  using assms
  by (auto simp: save_candidate_def Post_findOneAndUpdate_def Let_def
      split: option.splits prod.splits)

lemma promise_all_returns:
  assumes "\<And>x s. \<exists>y s'. f x s = (Inr y, s')"
  shows "\<exists>ys s'. promise_all f xs s = (Inr ys, s')"
proof (induction xs arbitrary: s)
  case Nil
  then show ?case by simp
next
  case (Cons x xs)
  from assms[of x s] obtain y s1 where "f x s = (Inr y, s1)" by auto
  moreover from Cons[of s1] obtain ys s2 where "promise_all f xs s1 = (Inr ys, s2)" by auto
  ultimately show ?case by simp
qed

text \<open>
  C6, as amended. When \<^verbatim>\<open>savePostsData\<close> returns its saved list, the identities of
  the saved documents are, in order, the (biz, mid, idx) triples read from the query
  parameters of the HTML-unescaped links of the units that have a title and a link. The
  code removes no duplicates: the identities of the list are pairwise distinct exactly
  when those triples are. A batch whose units were collected is saved and returned
  whenever no collaborator call is rejected. The link
  \<^verbatim>\<open>https://host/s?__biz=Bz1&mid=Mid1&idx=2\<close> gives (Bz1, Mid1, 2).
\<close>

theorem savePostsData_identities:
  "(\<forall>saved s'. savePostsData env postList s = (Inr saved, s') \<longrightarrow>
      (\<exists>units. collect postList [] = Inr units \<and>
         map identity saved = map (link_identity env) (List.map_filter kept_link units) \<and>
         (distinct (map identity saved) \<longleftrightarrow>
            distinct (map (link_identity env) (List.map_filter kept_link units))))) \<and>
   ((\<forall>op. \<not> rejects env op) \<longrightarrow>
      (\<forall>units. collect postList [] = Inr units \<longrightarrow>
         (\<exists>saved s'. savePostsData env postList s = (Inr saved, s')))) \<and>
   link_identity example_env ''https://host/s?__biz=Bz1&mid=Mid1&idx=2'' =
     (JStr ''Bz1'', JStr ''Mid1'', JStr ''2'')"
proof (intro conjI allI impI)
  fix saved s'
  assume ret: "savePostsData env postList s = (Inr saved, s')"
  then obtain units where units: "collect postList [] = Inr units"
    by (cases "collect postList []") (simp_all add: savePostsData_def)
  obtain r s1 where p: "promise_all (save_candidate env) units s = (r, s1)"
    by (cases "promise_all (save_candidate env) units s")
  from ret units p obtain res where res: "r = Inr res" "saved = filter_truthy res"
    using savePostsData_result[of env postList s]
    by (cases r) (auto split: sum.splits if_splits)
  from p res have "list_all2 (\<lambda>u r. case kept_link u of None \<Rightarrow> r = None
         | Some l \<Rightarrow> \<exists>d. r = Some d \<and> identity d = link_identity env l) units res"
    by (intro promise_all_Inr[where f = "save_candidate env"] save_candidate_result) auto
  then have "map identity saved = map (link_identity env) (List.map_filter kept_link units)"
    unfolding res by (rule identities_of_saved)
  with units show "\<exists>units. collect postList [] = Inr units \<and>
         map identity saved = map (link_identity env) (List.map_filter kept_link units) \<and>
         (distinct (map identity saved) \<longleftrightarrow>
            distinct (map (link_identity env) (List.map_filter kept_link units)))"
    by simp
next
  fix units
  assume ok: "\<forall>op. \<not> rejects env op" and units: "collect postList [] = Inr units"
  from promise_all_returns[of "save_candidate env" units s] save_candidate_returns[OF ok]
  obtain res s1 where p: "promise_all (save_candidate env) units s = (Inr res, s1)"
    by blast
  have "fst (lookup_first_profile env (filter_truthy res) s1) = Inr ()"
    using ok by (simp add: lookup_first_profile_result split: list.splits)
  with units p ok have "fst (savePostsData env postList s) = Inr (filter_truthy res)"
    by (simp add: savePostsData_result)
  then show "\<exists>saved s'. savePostsData env postList s = (Inr saved, s')"
    by (cases "savePostsData env postList s") auto
next
  show "link_identity example_env ''https://host/s?__biz=Bz1&mid=Mid1&idx=2'' =
     (JStr ''Bz1'', JStr ''Mid1'', JStr ''2'')"
    by code_simp
qed

theorem savePostsData_identities_witness:
  "\<exists>saved s'. savePostsData example_env [example_entry] empty_store = (Inr saved, s') \<and>
     map identity saved = [(JStr ''Bz1'', JStr ''Mid1'', JStr ''1''), (JStr ''Bz1'', JStr ''Mid1'', JStr ''2'')] \<and>
     distinct (map identity saved)"
proof -
  let ?units = "[\<lparr>appMsg = primary_item, publishAt = JDate 1500000000000\<rparr>,
                 \<lparr>appMsg = sub_item, publishAt = JDate 1500000000000\<rparr>]"
  have ok: "\<forall>op. \<not> rejects example_env op"
    by (simp add: example_env_def)
  have units: "collect [example_entry] [] = Inr ?units"
    by (simp add: collect_entry_def example_entry_def primary_item_def Let_def)
  have ids: "map (link_identity example_env) (List.map_filter kept_link ?units) =
      [(JStr ''Bz1'', JStr ''Mid1'', JStr ''1''), (JStr ''Bz1'', JStr ''Mid1'', JStr ''2'')]"
    by code_simp
  note inst = savePostsData_identities[of example_env "[example_entry]" empty_store]
  from inst ok units obtain saved s' where
    ret: "savePostsData example_env [example_entry] empty_store = (Inr saved, s')"
    by blast
  with inst units have "map identity saved = map (link_identity example_env) (List.map_filter kept_link ?units)"
    by auto
  with ids ret show ?thesis by auto
qed

text \<open>
  Against C6 as stated: an entry listed twice in one batch is saved twice, and the saved
  list repeats its identities.
\<close>

theorem savePostsData_repeated_identity:
  "map_sum id (map identity) (fst (savePostsData example_env twice_listed empty_store)) =
     Inr [(JStr ''Bz1'', JStr ''Mid1'', JStr ''1''), (JStr ''Bz1'', JStr ''Mid1'', JStr ''2''),
          (JStr ''Bz1'', JStr ''Mid1'', JStr ''1''), (JStr ''Bz1'', JStr ''Mid1'', JStr ''2'')]"
  by code_simp

lemma save_candidate_Profile_frame:
  "save_candidate env u (s\<lparr>Profile := P\<rparr>) =
     (fst (save_candidate env u s), (snd (save_candidate env u s))\<lparr>Profile := P\<rparr>)"
  by (simp add: save_candidate_def Post_findOneAndUpdate_def Let_def
      split: option.splits prod.splits)

lemma promise_all_Profile_frame:
  assumes "\<And>x s. f x (s\<lparr>Profile := P\<rparr>) = (fst (f x s), (snd (f x s))\<lparr>Profile := P\<rparr>)"
  shows "promise_all f xs (s\<lparr>Profile := P\<rparr>) =
           (fst (promise_all f xs s), (snd (promise_all f xs s))\<lparr>Profile := P\<rparr>)"
proof (induction xs arbitrary: s)
  case Nil
  then show ?case by simp
next
  case (Cons x xs)
  obtain r s1 where x: "f x s = (r, s1)" by (cases "f x s")
  obtain rs s2 where xs: "promise_all f xs s1 = (rs, s2)" by (cases "promise_all f xs s1")
  from x have "f x (s\<lparr>Profile := P\<rparr>) = (r, s1\<lparr>Profile := P\<rparr>)"
    by (simp add: assms)
  moreover from xs have "promise_all f xs (s1\<lparr>Profile := P\<rparr>) = (rs, s2\<lparr>Profile := P\<rparr>)"
    by (simp add: Cons)
  ultimately show ?case using x xs by simp
qed

lemma Profile_findOne_Profile_frame:
  "snd (Profile_findOne env flt (s\<lparr>Profile := P\<rparr>)) = (snd (Profile_findOne env flt s))\<lparr>Profile := P\<rparr>"
  by (simp add: Profile_findOne_def Let_def)

lemma lookup_first_profile_Profile_frame:
  "snd (lookup_first_profile env saved (s\<lparr>Profile := P\<rparr>)) =
     (snd (lookup_first_profile env saved s))\<lparr>Profile := P\<rparr>"
proof (cases saved)
  case Nil
  then show ?thesis by (simp add: lookup_first_profile_def)
next
  case (Cons p0 rest)
  have "snd (lookup_first_profile env saved t) =
      snd (Profile_findOne env [(''msgBiz'', fld p0 ''msgBiz'')] t)" for t
    using store_await_find_fresh[of env "fld p0 ''msgBiz''" t] Cons
    by (auto simp: lookup_first_profile_def split: prod.splits sum.splits)
  then show ?thesis by (simp add: Profile_findOne_Profile_frame)
qed

lemma savePubRecords_Profile_frame:
  "savePubRecords env saved (s\<lparr>Profile := P\<rparr>) =
     (fst (savePubRecords env saved s), (snd (savePubRecords env saved s))\<lparr>Profile := P\<rparr>)"
  by (simp add: savePubRecords_def Let_def)

lemma redis_llen_Profile_frame:
  "redis_llen env (s\<lparr>Profile := P\<rparr>) =
     (fst (redis_llen env s), (snd (redis_llen env s))\<lparr>Profile := P\<rparr>)"
  by (simp add: redis_llen_def Let_def)

lemma savePostsData_Profile_frame:
  "savePostsData env postList (s\<lparr>Profile := P\<rparr>) =
     (fst (savePostsData env postList s), (snd (savePostsData env postList s))\<lparr>Profile := P\<rparr>)"
proof (cases "collect postList []")
  case (Inl e)
  then show ?thesis by (simp add: savePostsData_def)
next
  case (Inr units)
  obtain r s1 where p: "promise_all (save_candidate env) units s = (r, s1)"
    by (cases "promise_all (save_candidate env) units s")
  then have p': "promise_all (save_candidate env) units (s\<lparr>Profile := P\<rparr>) = (r, s1\<lparr>Profile := P\<rparr>)"
    by (simp add: promise_all_Profile_frame[of "save_candidate env"] save_candidate_Profile_frame)
  show ?thesis
  proof (cases r)
    case (Inl e)
    with Inr p p' show ?thesis by (simp add: savePostsData_def)
  next
    case res: (Inr res)
    obtain l s2 where l: "lookup_first_profile env (filter_truthy res) s1 = (l, s2)"
      by (cases "lookup_first_profile env (filter_truthy res) s1")
    have "fst (lookup_first_profile env (filter_truthy res) (s1\<lparr>Profile := P\<rparr>)) = l"
      using l lookup_first_profile_result[of env "filter_truthy res" s1]
        lookup_first_profile_result[of env "filter_truthy res" "s1\<lparr>Profile := P\<rparr>"] by simp
    moreover have "snd (lookup_first_profile env (filter_truthy res) (s1\<lparr>Profile := P\<rparr>)) = s2\<lparr>Profile := P\<rparr>"
      using l by (simp add: lookup_first_profile_Profile_frame)
    ultimately have l': "lookup_first_profile env (filter_truthy res) (s1\<lparr>Profile := P\<rparr>) = (l, s2\<lparr>Profile := P\<rparr>)"
      by (simp add: prod_eq_iff)
    obtain q s3 where q: "savePubRecords env (filter_truthy res) s2 = (q, s3)"
      by (cases "savePubRecords env (filter_truthy res) s2")
    then have q': "savePubRecords env (filter_truthy res) (s2\<lparr>Profile := P\<rparr>) = (q, s3\<lparr>Profile := P\<rparr>)"
      by (simp add: savePubRecords_Profile_frame)
    obtain z s4 where z: "redis_llen env s3 = (z, s4)"
      by (cases "redis_llen env s3")
    then have z': "redis_llen env (s3\<lparr>Profile := P\<rparr>) = (z, s4\<lparr>Profile := P\<rparr>)"
      by (simp add: redis_llen_Profile_frame)
    from Inr p p' res l l' q q' z z' show ?thesis
      by (cases l; cases q; cases z) (simp_all add: savePostsData_def Let_def)
  qed
qed

text \<open>
  C9, as amended. What the profile lookup finds is used for nothing but the log line: with
  any other content of the profile collection \<^verbatim>\<open>savePostsData\<close> returns the same result and
  leaves the same store, the profile collection itself untouched, so nothing of a found
  profile is written anywhere. But the lookup is awaited without a handler: when the store
  rejects it, the batch is rejected too.
\<close>

theorem savePostsData_profile_lookup:
  "fst (savePostsData env postList (s\<lparr>Profile := profiles\<rparr>)) = fst (savePostsData env postList s) \<and>
   snd (savePostsData env postList (s\<lparr>Profile := profiles\<rparr>)) =
     (snd (savePostsData env postList s))\<lparr>Profile := profiles\<rparr> \<and>
   (lookup_rejected env postList s \<longrightarrow> fst (savePostsData env postList s) = Inl StoreError)"
proof (intro conjI)
  show "fst (savePostsData env postList (s\<lparr>Profile := profiles\<rparr>)) = fst (savePostsData env postList s)"
    by (simp add: savePostsData_Profile_frame)
  show "snd (savePostsData env postList (s\<lparr>Profile := profiles\<rparr>)) =
     (snd (savePostsData env postList s))\<lparr>Profile := profiles\<rparr>"
    by (simp add: savePostsData_Profile_frame)
  show "lookup_rejected env postList s \<longrightarrow> fst (savePostsData env postList s) = Inl StoreError"
    unfolding savePostsData_result lookup_first_profile_result lookup_rejected_def
    by (auto split: sum.splits list.splits)
qed

theorem savePostsData_profile_lookup_witness:
  "fst (savePostsData example_env [example_entry] (empty_store\<lparr>Profile := [some_profile]\<rparr>)) =
     fst (savePostsData example_env [example_entry] empty_store) \<and>
   snd (savePostsData example_env [example_entry] (empty_store\<lparr>Profile := [some_profile]\<rparr>)) =
     (snd (savePostsData example_env [example_entry] empty_store))\<lparr>Profile := [some_profile]\<rparr> \<and>
   length (Post (snd (savePostsData example_env [example_entry] (empty_store\<lparr>Profile := [some_profile]\<rparr>)))) = 2 \<and>
   lookup_rejected profile_lookup_rejected [example_entry] empty_store \<and>
   fst (savePostsData profile_lookup_rejected [example_entry] empty_store) = Inl StoreError"
proof -
  have "lookup_rejected profile_lookup_rejected [example_entry] empty_store"
    by code_simp
  moreover have "length (Post (snd (savePostsData example_env [example_entry] (empty_store\<lparr>Profile := [some_profile]\<rparr>)))) = 2"
    by code_simp
  ultimately show ?thesis
  using savePostsData_profile_lookup[where env = example_env and postList = "[example_entry]"
      and s = empty_store and profiles = "[some_profile]"]
    savePostsData_profile_lookup[where env = profile_lookup_rejected
      and postList = "[example_entry]" and s = empty_store]
   by simp
qed

text \<open>
  Against C9 as stated: the two units of the batch are saved, the profile lookup is
  rejected, and \<^verbatim>\<open>savePostsData\<close> ends with that rejection.
\<close>

theorem savePostsData_rejected_lookup:
  "fst (savePostsData profile_lookup_rejected [example_entry] empty_store) = Inl StoreError \<and>
   length (Post (snd (savePostsData profile_lookup_rejected [example_entry] empty_store))) = 2"
  by code_simp

section \<open>getPostDetail: properties\<close>

lemma matches_apply_set:
  assumes "matches flt d" "fst ` set sets \<inter> fst ` set flt = {}"
  shows "matches flt (apply_set sets d)"
  unfolding matches_def list_all_iff
proof (intro ballI, clarify)
  fix k v
  assume kv: "(k, v) \<in> set flt"
  with assms(2) have "k \<notin> fst ` set sets" by force
  then have "fld (apply_set sets d) k = fld d k" by (rule fld_apply_set_other)
  with matches_fld[OF assms(1) kv] show "fld (apply_set sets d) k = v" by simp
qed

lemma findOne_after_update:
  assumes "fst ` set sets \<inter> fst ` set flt = {}" "matches flt flt"
  shows "coll_findOne flt (snd (coll_findOneAndUpdate flt sets new c)) =
           Some (apply_set sets (case coll_findOne flt c of None \<Rightarrow> flt | Some d0 \<Rightarrow> d0))"
proof (cases "coll_findOne flt c")
  case None
  with matches_apply_set[OF assms(2,1)] show ?thesis
    by (simp add: coll_findOneAndUpdate_def coll_findOne_def Let_def find_append_new)
next
  case (Some d0)
  then have "matches flt d0" by (rule coll_findOne_matches)
  from find_update_first[OF _ matches_apply_set[OF this assms(1)]] Some show ?thesis
    by (simp add: coll_findOneAndUpdate_def coll_findOne_def)
qed

lemma matches_identity_filter: "matches (identity_filter b m i) (identity_filter b m i)"
  by (simp add: matches_def identity_filter_def fld_def)

text \<open>
  C4. When the link resolves to an identity and the fetched document carries an
  invalidation marker, \<^verbatim>\<open>getPostDetail\<close> makes exactly one call on the store, the
  write of \<^verbatim>\<open>isFail: true\<close> under that identity (accepted by the store), and
  returns. Afterwards the article under the identity has \<^verbatim>\<open>isFail = true\<close> and every
  other property as before (for a new article, those of the key); the profiles are
  untouched.
\<close>

theorem getPostDetail_invalidated:
  assumes "truthy link"
    and "getIdentifying env link body = Inr (b, m, i)"
    and "truthy b" and "truthy m" and "truthy i"
    and "getBody env link body = Inr fetched"
    and "invalidated fetched"
    and "\<not> rejects env (isFail_write (b, m, i))"
  shows "\<exists>s' d. getPostDetail env link body s = (Inr (), s') \<and>
           oplog s' = oplog s @ [isFail_write (b, m, i)] \<and>
           Profile s' = Profile s \<and>
           coll_findOne (identity_filter b m i) (Post s') = Some d \<and>
           fld d ''isFail'' = JBool True \<and>
           (\<forall>k. k \<noteq> ''isFail'' \<longrightarrow> fld d k = fld (article_before (b, m, i) s) k)"
proof -
  let ?flt = "identity_filter b m i"
  let ?sets = "[(''isFail'', JBool True)]"
  let ?s1 = "s\<lparr>oplog := oplog s @ [isFail_write (b, m, i)]\<rparr>"
  let ?s' = "?s1\<lparr>Post := snd (coll_findOneAndUpdate ?flt ?sets False (Post s))\<rparr>"
  let ?d = "apply_set ?sets (article_before (b, m, i) s)"
  have run: "getPostDetail env link body s = (Inr (), ?s')"
    using assms
    by (simp add: getPostDetail_def mark_failed_def Post_findOneAndUpdate_def isFail_write_def
        split: prod.splits)
  have "fst ` set ?sets \<inter> fst ` set ?flt = {}"
    by (simp add: identity_filter_def)
  from findOne_after_update[OF this matches_identity_filter, of False "Post s"]
  have found: "coll_findOne ?flt (Post ?s') = Some ?d"
    by (simp add: article_before_def)
  have "fld ?d ''isFail'' = JBool True"
    by (simp add: apply_set_def fld_def update_conv')
  moreover have "\<forall>k. k \<noteq> ''isFail'' \<longrightarrow> fld ?d k = fld (article_before (b, m, i) s) k"
    by (simp add: fld_apply_set_other)
  ultimately show ?thesis
    using run found by (intro exI[of _ ?s'] exI[of _ ?d]) simp
qed

theorem getPostDetail_invalidated_witness:
  "truthy example_link \<and>
   getIdentifying example_env example_link removed_page =
     Inr (JStr ''Bz1'', JStr ''Mid1'', JStr ''2'') \<and>
   getBody example_env example_link removed_page = Inr ''<div class=global_error_msg>gone</div>'' \<and>
   invalidated ''<div class=global_error_msg>gone</div>'' \<and>
   \<not> rejects example_env (isFail_write (JStr ''Bz1'', JStr ''Mid1'', JStr ''2'')) \<and>
   (\<exists>s' d. getPostDetail example_env example_link removed_page complete_store = (Inr (), s') \<and>
      oplog s' = [isFail_write (JStr ''Bz1'', JStr ''Mid1'', JStr ''2'')] \<and>
      Profile s' = [complete_publisher] \<and>
      coll_findOne example_key (Post s') = Some d \<and>
      fld d ''isFail'' = JBool True \<and>
      fld d ''title'' = JStr ''Old title'')"
proof -
  have l: "truthy example_link"
    by (simp add: example_link_def)
  have i: "getIdentifying example_env example_link removed_page =
      Inr (JStr ''Bz1'', JStr ''Mid1'', JStr ''2'')"
    by code_simp
  have g: "getBody example_env example_link removed_page = Inr ''<div class=global_error_msg>gone</div>''"
    by (simp add: example_env_def given_body_def removed_page_def)
  have v: "invalidated ''<div class=global_error_msg>gone</div>''"
    by code_simp
  have r: "\<not> rejects example_env (isFail_write (JStr ''Bz1'', JStr ''Mid1'', JStr ''2''))"
    by (simp add: example_env_def)
  have before: "article_before (JStr ''Bz1'', JStr ''Mid1'', JStr ''2'') complete_store = complete_article"
    by code_simp
  have t: "fld complete_article ''title'' = JStr ''Old title''"
    by code_simp
  from getPostDetail_invalidated[OF l i _ _ _ g v r, of complete_store] before t
  obtain s' d where
    "getPostDetail example_env example_link removed_page complete_store = (Inr (), s')"
    "oplog s' = oplog complete_store @ [isFail_write (JStr ''Bz1'', JStr ''Mid1'', JStr ''2'')]"
    "Profile s' = Profile complete_store"
    "coll_findOne (identity_filter (JStr ''Bz1'') (JStr ''Mid1'') (JStr ''2'')) (Post s') = Some d"
    "fld d ''isFail'' = JBool True" "fld d ''title'' = JStr ''Old title''"
    by auto
  with l i g v r show ?thesis
    by (auto simp: complete_store_def example_key_def)
qed

lemma post_writes_append: "post_writes (xs @ ys) = post_writes xs @ post_writes ys"
  by (induction xs rule: post_writes.induct) simp_all

lemma profile_writes_append: "profile_writes (xs @ ys) = profile_writes xs @ profile_writes ys"
  by (induction xs rule: profile_writes.induct) simp_all

lemma basic_fields_apply_set:
  "keeps_basic_fields sets \<Longrightarrow> basic_fields (apply_set sets d) = basic_fields d"
  by (simp add: basic_fields_def keeps_basic_fields_def fld_apply_set_other)

lemma basic_fields_update_first:
  "keeps_basic_fields sets \<Longrightarrow> map basic_fields (update_first flt sets c) = map basic_fields c"
  by (induction c) (simp_all add: basic_fields_apply_set)

lemma basic_fields_findOneAndUpdate:
  assumes "keeps_basic_fields sets" "coll_findOne flt c = Some d0"
  shows "map basic_fields (snd (coll_findOneAndUpdate flt sets new c)) = map basic_fields c"
  using assms by (simp add: coll_findOneAndUpdate_def basic_fields_update_first)

lemma complete_post_Some: "complete_post r \<Longrightarrow> \<exists>d0. r = Some d0"
  by (cases r) (simp_all add: complete_post_def)

lemma mark_failed_effect: "article_write_only (b, m, i) s (snd (mark_failed env (b, m, i) s))"
proof -
  have "keeps_basic_fields [(''isFail'', JBool True)]"
    by (simp add: keeps_basic_fields_def)
  then show ?thesis
    unfolding article_write_only_def mark_failed_def Post_findOneAndUpdate_def Let_def
    by (auto split: prod.splits)
qed

lemma harmless_refl: "harmless ident s s"
  by (cases ident) (simp add: harmless_def)

lemma harmless_trans:
  assumes "harmless ident s s1" "harmless ident s1 s2"
  shows "harmless ident s s2"
proof -
  obtain b m i where ident: "ident = (b, m, i)" by (cases ident)
  from assms(1) ident obtain ops1 where 1: "oplog s1 = oplog s @ ops1"
    "complete_post (coll_findOne (identity_filter b m i) (Post s)) \<longrightarrow>
       post_writes ops1 = [] \<and> Post s1 = Post s"
    "complete_profile (coll_findOne [(''msgBiz'', b)] (Profile s)) \<longrightarrow>
       profile_writes ops1 = [] \<and> Profile s1 = Profile s"
    by (auto simp: harmless_def)
  from assms(2) ident obtain ops2 where 2: "oplog s2 = oplog s1 @ ops2"
    "complete_post (coll_findOne (identity_filter b m i) (Post s1)) \<longrightarrow>
       post_writes ops2 = [] \<and> Post s2 = Post s1"
    "complete_profile (coll_findOne [(''msgBiz'', b)] (Profile s1)) \<longrightarrow>
       profile_writes ops2 = [] \<and> Profile s2 = Profile s1"
    by (auto simp: harmless_def)
  from 1 2 have "oplog s2 = oplog s @ (ops1 @ ops2)" by simp
  moreover from 1 2 have "complete_post (coll_findOne (identity_filter b m i) (Post s)) \<longrightarrow>
       post_writes (ops1 @ ops2) = [] \<and> Post s2 = Post s"
    by (auto simp: post_writes_append)
  moreover from 1 2 have "complete_profile (coll_findOne [(''msgBiz'', b)] (Profile s)) \<longrightarrow>
       profile_writes (ops1 @ ops2) = [] \<and> Profile s2 = Profile s"
    by (auto simp: profile_writes_append)
  ultimately show ?thesis
    unfolding harmless_def ident by blast
qed

lemma harmless_gaps_only: "harmless ident s s' \<Longrightarrow> gaps_only ident s s'"
  by (cases ident) (auto simp: harmless_def gaps_only_def calls_made_def)

lemma harmless_then_gaps_only:
  assumes "harmless ident s s1" "gaps_only ident s1 s2" "\<exists>ops. oplog s2 = oplog s1 @ ops"
  shows "gaps_only ident s s2"
proof -
  obtain b m i where ident: "ident = (b, m, i)" by (cases ident)
  from assms(1) ident obtain ops1 where 1: "oplog s1 = oplog s @ ops1"
    "complete_post (coll_findOne (identity_filter b m i) (Post s)) \<longrightarrow>
       post_writes ops1 = [] \<and> Post s1 = Post s"
    "complete_profile (coll_findOne [(''msgBiz'', b)] (Profile s)) \<longrightarrow>
       profile_writes ops1 = [] \<and> Profile s1 = Profile s"
    by (auto simp: harmless_def)
  from assms(3) obtain ops2 where 2: "oplog s2 = oplog s1 @ ops2" by blast
  with 1 have calls: "calls_made s s2 = ops1 @ ops2" "calls_made s1 s2 = ops2"
    by (simp_all add: calls_made_def)
  from assms(2) ident 1 show ?thesis
    unfolding gaps_only_def ident calls
    by (auto simp: post_writes_append profile_writes_append)
qed

lemma save_basic_info_harmless:
  "harmless (b, m, i) s (snd (save_basic_info env (b, m, i) link x s))"
proof (cases "rejects env (PostFindOne (identity_filter b m i)) \<or>
    complete_post (coll_findOne (identity_filter b m i) (Post s))")
  case True
  then show ?thesis
    unfolding harmless_def
    by (auto simp: save_basic_info_def Post_findOne_def Let_def
        intro!: exI[of _ "[PostFindOne (identity_filter b m i)]"])
next
  case False
  then show ?thesis
    unfolding harmless_def
    by (auto simp: save_basic_info_def Post_findOne_def Post_findOneAndUpdate_def Let_def
        split: prod.splits
        intro!: exI[of _ "[PostFindOne (identity_filter b m i),
          PostFindOneAndUpdate (identity_filter b m i) (post_updateObj (b, m, i) link x)]"])
qed

lemma save_profile_info_harmless:
  "harmless (b, m, i) s (snd (save_profile_info env b x s))"
proof (cases "rejects env (ProfileFindOne [(''msgBiz'', b)]) \<or>
    complete_profile (coll_findOne [(''msgBiz'', b)] (Profile s))")
  case True
  then show ?thesis
    unfolding harmless_def
    by (auto simp: save_profile_info_def Profile_findOne_def Let_def
        intro!: exI[of _ "[ProfileFindOne [(''msgBiz'', b)]]"])
next
  case False
  then show ?thesis
    unfolding harmless_def
    by (auto simp: save_profile_info_def Profile_findOne_def Profile_findOneAndUpdate_def Let_def
        split: prod.splits
        intro!: exI[of _ "[ProfileFindOne [(''msgBiz'', b)],
          ProfileFindOneAndUpdate [(''msgBiz'', b)] (profile_updateObj b x)]"])
qed

lemma save_content_effect:
  "article_write_only (b, m, i) s (snd (save_content env (b, m, i) body doc s))"
proof -
  have keeps: "keeps_basic_fields
      (AList.update ''imported'' (JBool False)
         (AList.update ''viewed'' (JBool True)
            (set_if_truthy (''html'', h) [(''msgBiz'', b), (''msgMid'', m), (''msgIdx'', i)])))" for h
    by (simp add: keeps_basic_fields_def set_if_truthy_def dom_update)
  show ?thesis
    unfolding article_write_only_def save_content_def Post_findOneAndUpdate_def Let_def
    using keeps by (auto split: prod.splits jsval.splits)
qed

lemma article_write_only_gaps:
  assumes "article_write_only (b, m, i) s s'"
  shows "gaps_only (b, m, i) s s'"
proof -
  from assms have profile: "Profile s' = Profile s"
    by (simp add: article_write_only_def)
  from assms consider
    (none) "oplog s' = oplog s" "Post s' = Post s"
    | (one) sets where "keeps_basic_fields sets"
      "oplog s' = oplog s @ [PostFindOneAndUpdate (identity_filter b m i) sets]"
      "Post s' = Post s \<or>
         Post s' = snd (coll_findOneAndUpdate (identity_filter b m i) sets False (Post s))"
    by (auto simp: article_write_only_def)
  then show ?thesis
  proof cases
    case none
    with profile show ?thesis by (simp add: gaps_only_def calls_made_def)
  next
    case one
    have "map basic_fields (Post s') = map basic_fields (Post s)"
      if "complete_post (coll_findOne (identity_filter b m i) (Post s))"
      using one(1,3) complete_post_Some[OF that] basic_fields_findOneAndUpdate by auto
    with one(1,2) profile show ?thesis
      by (simp add: gaps_only_def calls_made_def)
  qed
qed

lemma article_write_only_extends:
  "article_write_only ident s s' \<Longrightarrow> \<exists>ops. oplog s' = oplog s @ ops"
  by (cases ident) (auto simp: article_write_only_def)

lemma post_writes_mem:
  "PostFindOneAndUpdate flt sets \<in> set ops \<Longrightarrow> sets \<in> set (post_writes ops)"
  by (induction ops rule: post_writes.induct) auto

lemma set_if_truthy_keeps_key: "k \<in> fst ` set ob \<Longrightarrow> k \<in> fst ` set (set_if_truthy kv ob)"
  by (simp add: set_if_truthy_def dom_update)

lemma post_updateObj_names_link: "''link'' \<in> fst ` set (post_updateObj (b, m, i) link x)"
  unfolding post_updateObj_def by (simp add: set_if_truthy_keeps_key)

lemma basic_update_not_made:
  assumes "list_all keeps_basic_fields (post_writes ops)"
  shows "PostFindOneAndUpdate flt (post_updateObj (b, m, i) link x) \<notin> set ops"
proof
  assume "PostFindOneAndUpdate flt (post_updateObj (b, m, i) link x) \<in> set ops"
  then have "post_updateObj (b, m, i) link x \<in> set (post_writes ops)"
    by (rule post_writes_mem)
  with assms have "keeps_basic_fields (post_updateObj (b, m, i) link x)"
    by (simp add: list_all_iff)
  with post_updateObj_names_link[where link = link and b = b and m = m and i = i and x = x] show False
    by (simp add: keeps_basic_fields_def)
qed

text \<open>
  C3. Fill gaps only. When the article stored under the resolved identity is complete
  (title, link and wechatId all present), \<^verbatim>\<open>getPostDetail\<close> does not perform the
  basic-field update of lines 192-203: that write is not among the calls made on the
  store, whatever the page holds; no write made on the articles names any of the seven
  fields the update sets (title, link, wechatId, publishAt, sourceUrl, cover, digest); and
  every stored article keeps its value of each of the seven. When the profile stored
  under the biz is complete (wechatId, username and headimg all present),
  \<^verbatim>\<open>getPostDetail\<close> makes no write on the profiles and leaves them as they were.
\<close>

theorem getPostDetail_fill_gaps_only:
  assumes "getIdentifying env link body = Inr (b, m, i)"
  shows "(complete_post (coll_findOne (identity_filter b m i) (Post s)) \<longrightarrow>
            (\<forall>x. PostFindOneAndUpdate (identity_filter b m i) (post_updateObj (b, m, i) link x) \<notin>
                   set (calls_made s (snd (getPostDetail env link body s)))) \<and>
            list_all keeps_basic_fields
              (post_writes (calls_made s (snd (getPostDetail env link body s)))) \<and>
            map basic_fields (Post (snd (getPostDetail env link body s))) =
              map basic_fields (Post s)) \<and>
         (complete_profile (coll_findOne [(''msgBiz'', b)] (Profile s)) \<longrightarrow>
            profile_writes (calls_made s (snd (getPostDetail env link body s))) = [] \<and>
            Profile (snd (getPostDetail env link body s)) = Profile s)"
proof -
  let ?ident = "(b, m, i)"
  have same: "gaps_only ?ident s s"
    by (rule harmless_gaps_only[OF harmless_refl])
  have "gaps_only ?ident s (snd (getPostDetail env link body s))"
  proof (cases "truthy link \<and> truthy b \<and> truthy m \<and> truthy i")
    case False
    with assms same show ?thesis by (auto simp: getPostDetail_def)
  next
    case ids: True
    show ?thesis
    proof (cases "getBody env link body")
      case (Inl e)
      with assms ids same show ?thesis by (simp add: getPostDetail_def)
    next
      case (Inr fetched)
      show ?thesis
      proof (cases "invalidated fetched")
        case True
        with assms ids Inr have "snd (getPostDetail env link body s) = snd (mark_failed env ?ident s)"
          by (simp add: getPostDetail_def)
        with article_write_only_gaps[OF mark_failed_effect] show ?thesis by simp
      next
        case False
        let ?x = "extract_fields fetched"
        obtain r1 s1 where 1: "save_basic_info env ?ident link ?x s = (r1, s1)"
          by (cases "save_basic_info env ?ident link ?x s")
        obtain r2 s2 where 2: "save_profile_info env b ?x s1 = (r2, s2)"
          by (cases "save_profile_info env b ?x s1")
        from save_basic_info_harmless[of b m i s env link ?x] 1 have h1: "harmless ?ident s s1"
          by simp
        from save_profile_info_harmless[of b m i s1 env ?x] 2 have "harmless ?ident s1 s2"
          by simp
        with h1 have h2: "harmless ?ident s s2"
          by (rule harmless_trans)
        have h3: "gaps_only ?ident s (snd (save_content env ?ident fetched doc s2))" for doc
          using h2 article_write_only_gaps[OF save_content_effect]
            article_write_only_extends[OF save_content_effect]
          by (rule harmless_then_gaps_only)
        from assms ids Inr False 1 2
        have "snd (getPostDetail env link body s) = s1 \<or>
              snd (getPostDetail env link body s) = s2 \<or>
              (\<exists>doc. snd (getPostDetail env link body s) = snd (save_content env ?ident fetched doc s2))"
          by (auto simp: getPostDetail_def Let_def split: sum.splits)
        with harmless_gaps_only[OF h1] harmless_gaps_only[OF h2] h3 show ?thesis
          by auto
      qed
    qed
  qed
  then show ?thesis
    using basic_update_not_made[of "calls_made s (snd (getPostDetail env link body s))"
        "identity_filter b m i" b m i link]
    by (simp add: gaps_only_def)
qed

theorem getPostDetail_fill_gaps_only_witness:
  "getIdentifying content_env example_link detailed_page =
     Inr (JStr ''Bz1'', JStr ''Mid1'', JStr ''2'') \<and>
   complete_post (coll_findOne example_key (Post complete_store)) \<and>
   complete_profile (coll_findOne [(''msgBiz'', JStr ''Bz1'')] (Profile complete_store)) \<and>
   map (fld (post_updateObj (JStr ''Bz1'', JStr ''Mid1'', JStr ''2'') example_link
               (extract_fields (case detailed_page of JStr page \<Rightarrow> page))))
     [''title'', ''link'', ''wechatId'', ''publishAt'', ''sourceUrl'', ''cover'', ''digest''] =
     [JStr ''Hello'', example_link, JStr ''wx_1'', JDate 1500000000000, JStr ''http://src'',
      JStr ''http://cover'', JStr ''Summary''] \<and>
   PostFindOneAndUpdate example_key
       (post_updateObj (JStr ''Bz1'', JStr ''Mid1'', JStr ''2'') example_link
          (extract_fields (case detailed_page of JStr page \<Rightarrow> page))) \<notin>
     set (calls_made complete_store
        (snd (getPostDetail content_env example_link detailed_page complete_store))) \<and>
   list_all keeps_basic_fields
     (post_writes (calls_made complete_store
        (snd (getPostDetail content_env example_link detailed_page complete_store)))) \<and>
   map basic_fields (Post (snd (getPostDetail content_env example_link detailed_page complete_store))) =
     [[JStr ''Old title'', JStr ''https://host/old'', JStr ''gh_old'', Undefined, Undefined,
       Undefined, Undefined]] \<and>
   profile_writes (calls_made complete_store
     (snd (getPostDetail content_env example_link detailed_page complete_store))) = [] \<and>
   Profile (snd (getPostDetail content_env example_link detailed_page complete_store)) =
     [complete_publisher]"
proof -
  have i: "getIdentifying content_env example_link detailed_page =
      Inr (JStr ''Bz1'', JStr ''Mid1'', JStr ''2'')"
    by code_simp
  have a: "complete_post (coll_findOne (identity_filter (JStr ''Bz1'') (JStr ''Mid1'') (JStr ''2''))
      (Post complete_store))"
    by code_simp
  have p: "complete_profile (coll_findOne [(''msgBiz'', JStr ''Bz1'')] (Profile complete_store))"
    by code_simp
  have u: "map (fld (post_updateObj (JStr ''Bz1'', JStr ''Mid1'', JStr ''2'') example_link
               (extract_fields (case detailed_page of JStr page \<Rightarrow> page))))
     [''title'', ''link'', ''wechatId'', ''publishAt'', ''sourceUrl'', ''cover'', ''digest''] =
     [JStr ''Hello'', example_link, JStr ''wx_1'', JDate 1500000000000, JStr ''http://src'',
      JStr ''http://cover'', JStr ''Summary'']"
    by code_simp
  have before: "map basic_fields (Post complete_store) =
      [[JStr ''Old title'', JStr ''https://host/old'', JStr ''gh_old'', Undefined, Undefined,
        Undefined, Undefined]]"
    "Profile complete_store = [complete_publisher]"
    by code_simp+
  note t = getPostDetail_fill_gaps_only[OF i, of complete_store]
  from t a p have c1: "PostFindOneAndUpdate example_key
       (post_updateObj (JStr ''Bz1'', JStr ''Mid1'', JStr ''2'') example_link
          (extract_fields (case detailed_page of JStr page \<Rightarrow> page))) \<notin>
     set (calls_made complete_store
        (snd (getPostDetail content_env example_link detailed_page complete_store)))"
    unfolding example_key_def by blast
  from t a p before i u c1
  show ?thesis
    by (simp add: example_key_def)
qed

text \<open>
  C5 on the code: with content saving enabled in \<^verbatim>\<open>html\<close> mode and an article that
  already has its \<^verbatim>\<open>html\<close>, the content write is made all the same and replaces
  the body. \<^verbatim>\<open>shouldSaveToDb\<close> is \<^verbatim>\<open>true\<close> on every path of lines 229-237.
\<close>

theorem getPostDetail_rewrites_content:
  "isSavePostContent content_env \<and> saveContentType content_env = ''html'' \<and>
   map (\<lambda>d. fld d ''html'') (Post complete_store) = [JStr ''<p>old</p>''] \<and>
   post_writes (calls_made complete_store
     (snd (getPostDetail content_env example_link article_page complete_store))) =
     [[(''msgBiz'', JStr ''Bz1''), (''msgMid'', JStr ''Mid1''), (''msgIdx'', JStr ''2''),
       (''html'', JStr ''<p>new</p>''), (''viewed'', JBool True), (''imported'', JBool False)]] \<and>
   map (\<lambda>d. fld d ''html'')
     (Post (snd (getPostDetail content_env example_link article_page complete_store))) =
     [JStr ''<p>new</p>'']"
  by code_simp

theorem getPostDetail_rewrites_content_witness:
  "post_writes (calls_made complete_store
     (snd (getPostDetail content_env example_link article_page complete_store))) \<noteq> [] \<and>
   map (\<lambda>d. fld d ''html'')
     (Post (snd (getPostDetail content_env example_link article_page complete_store))) \<noteq>
   map (\<lambda>d. fld d ''html'') (Post complete_store)"
  using getPostDetail_rewrites_content by simp

section \<open>FindProfileHandler: properties\<close>

lemma in_flight_iff: "k \<in> in_flight r \<longleftrightarrow> (\<exists>call w. (call, k, w) \<in> set (suspended r))"
  by (force simp: in_flight_def)

lemma run_Nil [simp]: "run [] r = r"
  by (simp add: run_def)

lemma run_Cons [simp]: "run (e # evs) r = run evs (step e r)"
  by (simp add: run_def)

lemma run_append: "run (evs @ evs') r = run evs' (run evs r)"
  by (simp add: run_def)

lemma callers_of_split:
  "callers_of k evs = leader # followers \<Longrightarrow>
   \<exists>evs1 evs2. evs = evs1 @ Invoke leader k # evs2 \<and> callers_of k evs1 = [] \<and>
      callers_of k evs2 = followers"
proof (induction k evs rule: callers_of.induct)
  case (1 k)
  then show ?case by simp
next
  case (2 k call biz evs)
  show ?case
  proof (cases "biz = k")
    case True
    with 2 show ?thesis
      by (intro exI[of _ "[]"] exI[of _ evs]) simp
  next
    case False
    with 2 obtain evs1 evs2 where "evs = evs1 @ Invoke leader k # evs2" "callers_of k evs1 = []"
      "callers_of k evs2 = followers" by auto
    with False show ?thesis
      by (intro exI[of _ "Invoke call biz # evs1"] exI[of _ evs2]) simp
  qed
next
  case (3 k call answer evs)
  then obtain evs1 evs2 where "evs = evs1 @ Invoke leader k # evs2" "callers_of k evs1 = []"
    "callers_of k evs2 = followers" by auto
  then show ?case
    by (intro exI[of _ "Answer call answer # evs1"] exI[of _ evs2]) simp
qed

lemma invoked_append: "invoked (evs @ evs') = invoked evs @ invoked evs'"
  by (induction evs rule: invoked.induct) simp_all

lemma answered_append: "answered (evs @ evs') = answered evs @ answered evs'"
  by (induction evs rule: answered.induct) simp_all

text \<open>Before the first call for the key.\<close>

lemma unresolved_step:
  assumes "unresolved r k" "callers_of k [e] = []"
  shows "unresolved (step e r) k \<and> count_list (queries (step e r)) k = count_list (queries r) k \<and>
         fst ` set (suspended (step e r)) \<subseteq> fst ` set (suspended r) \<union> set (invoked [e])"
proof (cases e)
  case (Invoke call biz)
  with assms(2) have "biz \<noteq> k" by (simp split: if_splits)
  with assms(1) Invoke show ?thesis
    by (auto simp: unresolved_def in_flight_iff find_enter_def Let_def split: option.splits)
next
  case (Answer call answer)
  show ?thesis
  proof (cases "map_of (suspended r) call")
    case None
    with Answer assms(1) show ?thesis by simp
  next
    case (Some ba)
    obtain biz a where ba: "ba = (biz, a)" by (cases ba)
    let ?r = "r\<lparr>suspended := AList.delete call (suspended r)\<rparr>"
    from Some ba have "(call, biz, a) \<in> set (suspended r)" by (auto dest: map_of_SomeD)
    with assms(1) have "biz \<noteq> k" by (auto simp: unresolved_def in_flight_iff)
    have "in_flight ?r \<subseteq> in_flight r"
      by (auto simp: AList.delete_eq in_flight_iff) blast
    with assms(1) have nf: "k \<notin> in_flight ?r"
      by (auto simp: unresolved_def)
    have ids: "fst ` set (suspended ?r) \<subseteq> fst ` set (suspended r)"
      by (simp add: dom_delete_subset)
    have "unresolved (find_resume call biz a answer ?r) k"
      using assms(1) \<open>biz \<noteq> k\<close> nf
      by (cases answer) (simp_all add: unresolved_def in_flight_def find_resume_def)
    moreover have "queries (find_resume call biz a answer ?r) = queries r"
      "suspended (find_resume call biz a answer ?r) = suspended ?r"
      by (cases answer; simp add: find_resume_def)+
    ultimately show ?thesis
      using Answer Some ba ids by simp
  qed
qed

lemma unresolved_run:
  assumes "unresolved r k" "callers_of k evs = []"
  shows "unresolved (run evs r) k \<and> count_list (queries (run evs r)) k = count_list (queries r) k \<and>
         fst ` set (suspended (run evs r)) \<subseteq> fst ` set (suspended r) \<union> set (invoked evs)"
  using assms
proof (induction evs arbitrary: r)
  case Nil
  then show ?case by simp
next
  case (Cons e evs)
  from Cons.prems(2) have e: "callers_of k [e] = []" and evs: "callers_of k evs = []"
    by (cases e; simp split: if_splits)+
  note s = unresolved_step[OF Cons.prems(1) e]
  from Cons.IH[of "step e r"] s evs
  have "unresolved (run evs (step e r)) k"
    "count_list (queries (run evs (step e r))) k = count_list (queries (step e r)) k"
    "fst ` set (suspended (run evs (step e r))) \<subseteq> fst ` set (suspended (step e r)) \<union> set (invoked evs)"
    by auto
  with s show ?case
    by (cases e) auto
qed

text \<open>While the leader's query is in flight.\<close>

lemma flying_step:
  assumes "flying r k leader a fs" "answered [e] \<noteq> [leader]"
  shows "flying (step e r) k leader a (fs @ callers_of k [e]) \<and>
         count_list (queries (step e r)) k = count_list (queries r) k"
proof (cases e)
  case (Invoke call biz)
  from assms(1) have f: "profileMap (this r) k = None" "profileWaitingMap (this r) k = Some a"
    "a < length (arrays r)" "map_of (suspended r) leader = Some (k, a)"
    "\<forall>(call, biz, waitingList) \<in> set (suspended r). biz = k \<longrightarrow> call = leader"
    "set fs \<subseteq> set (arrays r ! a)"
    by (simp_all add: flying_def)
  show ?thesis
  proof (cases "biz = k")
    case True
    with f Invoke show ?thesis
      by (auto simp: flying_def find_enter_def)
  next
    case False
    show ?thesis
    proof (cases "profileMap (this r) biz")
      case (Some doc)
      with f False Invoke show ?thesis
        by (simp add: flying_def find_enter_def)
    next
      case None
      show ?thesis
      proof (cases "profileWaitingMap (this r) biz")
        case new: None
        with f False Invoke None show ?thesis
          by (auto simp: flying_def find_enter_def Let_def nth_append map_add_def)
      next
        case (Some a')
        from f(3,6) have "set fs \<subseteq> set ((arrays r)[a' := arrays r ! a' @ [call]] ! a)"
          by (cases "a' = a") auto
        with f False Invoke None Some show ?thesis
          by (simp add: flying_def find_enter_def)
      qed
    qed
  qed
next
  case (Answer call answer)
  with assms(2) have neq: "call \<noteq> leader" by simp
  from assms(1) have f: "profileMap (this r) k = None" "profileWaitingMap (this r) k = Some a"
    "a < length (arrays r)" "map_of (suspended r) leader = Some (k, a)"
    "\<forall>(call, biz, waitingList) \<in> set (suspended r). biz = k \<longrightarrow> call = leader"
    "set fs \<subseteq> set (arrays r ! a)"
    by (simp_all add: flying_def)
  show ?thesis
  proof (cases "map_of (suspended r) call")
    case None
    with Answer assms(1) show ?thesis by simp
  next
    case (Some ba)
    obtain biz a' where ba: "ba = (biz, a')" by (cases ba)
    let ?r = "r\<lparr>suspended := AList.delete call (suspended r)\<rparr>"
    from Some ba have "(call, biz, a') \<in> set (suspended r)" by (auto dest: map_of_SomeD)
    with f(5) neq have "biz \<noteq> k" by auto
    have "set (suspended ?r) \<subseteq> set (suspended r)"
      by (auto simp: AList.delete_eq)
    with f(5) have only: "\<forall>(call, biz, waitingList) \<in> set (suspended ?r). biz = k \<longrightarrow> call = leader"
      by blast
    from f(4) neq have lead: "map_of (suspended ?r) leader = Some (k, a)"
      by simp
    have "flying (find_resume call biz a' answer ?r) k leader a fs"
      using f \<open>biz \<noteq> k\<close> only lead
      by (cases answer) (simp_all add: flying_def find_resume_def)
    moreover have "queries (find_resume call biz a' answer ?r) = queries r"
      by (cases answer) (simp_all add: find_resume_def)
    ultimately show ?thesis
      using Answer Some ba by simp
  qed
qed

lemma flying_run:
  assumes "flying r k leader a fs" "leader \<notin> set (answered evs)"
  shows "flying (run evs r) k leader a (fs @ callers_of k evs) \<and>
         count_list (queries (run evs r)) k = count_list (queries r) k"
  using assms
proof (induction evs arbitrary: r fs)
  case Nil
  then show ?case by simp
next
  case (Cons e evs)
  from Cons.prems(2) have e: "answered [e] \<noteq> [leader]" and evs: "leader \<notin> set (answered evs)"
    by (cases e; simp)+
  note s = flying_step[OF Cons.prems(1) e]
  from Cons.IH[of "step e r" "fs @ callers_of k [e]"] s evs
  have "flying (run evs (step e r)) k leader a ((fs @ callers_of k [e]) @ callers_of k evs)"
    "count_list (queries (run evs (step e r))) k = count_list (queries (step e r)) k"
    by auto
  moreover have "callers_of k [e] @ callers_of k evs = callers_of k (e # evs)"
    by (cases e) simp_all
  ultimately show ?case
    using s by simp
qed

text \<open>The leader's call, and the completion of its query.\<close>

lemma leader_step:
  assumes "unresolved r k" "leader \<notin> fst ` set (suspended r)"
  shows "\<exists>a. flying (step (Invoke leader k) r) k leader a [] \<and>
           count_list (queries (step (Invoke leader k) r)) k = count_list (queries r) k + 1"
proof -
  from assms(2) have "map_of (suspended r) leader = None"
    by (simp add: map_of_eq_None_iff)
  with assms(1) show ?thesis
    by (auto simp: unresolved_def in_flight_iff flying_def find_enter_def Let_def map_add_def)
qed

lemma fold_settle:
  "fold (\<lambda>triggerFn m. m(triggerFn \<mapsto> v)) ps m p = (if p \<in> set ps then Some v else m p)"
  by (induction ps arbitrary: m) auto

lemma answer_step:
  assumes "flying r k leader a fs"
  shows "resolved (step (Answer leader (Inr doc)) r) k doc \<and>
         queries (step (Answer leader (Inr doc)) r) = queries r \<and>
         (\<forall>p \<in> set (leader # fs). settled (step (Answer leader (Inr doc)) r) p = Some (Inr doc))"
proof -
  from assms have f: "map_of (suspended r) leader = Some (k, a)"
    "\<forall>(call, biz, waitingList) \<in> set (suspended r). biz = k \<longrightarrow> call = leader"
    "set fs \<subseteq> set (arrays r ! a)"
    by (simp_all add: flying_def)
  let ?r = "r\<lparr>suspended := AList.delete leader (suspended r)\<rparr>"
  have "k \<notin> in_flight ?r"
    using f(2) by (auto simp: in_flight_iff AList.delete_eq)
  with f show ?thesis
    by (auto simp: resolved_def in_flight_def find_resume_def fold_settle)
qed

text \<open>
  The calls of a schedule for an unresolved key, up to the answer: the first of them is
  the leader, its query is the only one issued for the key, and the others wait on the
  leader's array.
\<close>

lemma in_flight_after_calls:
  assumes "unresolved r k"
    and "callers_of k evs = leader # followers"
    and "distinct (invoked evs)"
    and "set (invoked evs) \<inter> fst ` set (suspended r) = {}"
    and "leader \<notin> set (answered evs)"
  shows "\<exists>a. flying (run evs r) k leader a followers \<and>
           count_list (queries (run evs r)) k = count_list (queries r) k + 1"
proof -
  from callers_of_split[OF assms(2)] obtain evs1 evs2 where
    evs: "evs = evs1 @ Invoke leader k # evs2" and
    before: "callers_of k evs1 = []" and after: "callers_of k evs2 = followers"
    by blast
  let ?r1 = "run evs1 r"
  let ?r2 = "step (Invoke leader k) ?r1"
  have whole: "run evs r = run evs2 ?r2"
    by (simp add: evs run_append)
  from unresolved_run[OF assms(1) before] have 1: "unresolved ?r1 k"
    "count_list (queries ?r1) k = count_list (queries r) k"
    "fst ` set (suspended ?r1) \<subseteq> fst ` set (suspended r) \<union> set (invoked evs1)"
    by simp_all
  from assms(3) have "leader \<notin> set (invoked evs1)"
    by (simp add: evs invoked_append)
  moreover from assms(4) have "leader \<notin> fst ` set (suspended r)"
    by (auto simp: evs invoked_append)
  ultimately have "leader \<notin> fst ` set (suspended ?r1)"
    using 1(3) by blast
  from leader_step[OF 1(1) this] obtain a where 2: "flying ?r2 k leader a []"
    "count_list (queries ?r2) k = count_list (queries ?r1) k + 1"
    by blast
  from assms(5) have "leader \<notin> set (answered evs2)"
    by (simp add: evs answered_append)
  from flying_run[OF 2(1) this] after have "flying (run evs2 ?r2) k leader a followers"
    "count_list (queries (run evs2 ?r2)) k = count_list (queries ?r2) k"
    by simp_all
  with 1(2) 2(2) show ?thesis
    unfolding whole by auto
qed

lemma stuck_step:
  assumes "stuck r k"
  shows "stuck (step e r) k \<and> count_list (queries (step e r)) k = count_list (queries r) k"
proof (cases e)
  case (Invoke call biz)
  with assms show ?thesis
    by (auto simp: stuck_def in_flight_iff find_enter_def Let_def split: option.splits)
next
  case (Answer call answer)
  show ?thesis
  proof (cases "map_of (suspended r) call")
    case None
    with Answer assms show ?thesis by simp
  next
    case (Some ba)
    obtain biz a where ba: "ba = (biz, a)" by (cases ba)
    let ?r = "r\<lparr>suspended := AList.delete call (suspended r)\<rparr>"
    from Some ba have "(call, biz, a) \<in> set (suspended r)" by (auto dest: map_of_SomeD)
    with assms have "biz \<noteq> k" by (auto simp: stuck_def in_flight_iff)
    have "in_flight ?r \<subseteq> in_flight r"
      by (auto simp: AList.delete_eq in_flight_iff) blast
    with assms have nf: "k \<notin> in_flight ?r"
      by (auto simp: stuck_def)
    have "stuck (find_resume call biz a answer ?r) k"
      using assms \<open>biz \<noteq> k\<close> nf
      by (cases answer) (simp_all add: stuck_def in_flight_def find_resume_def)
    moreover have "queries (find_resume call biz a answer ?r) = queries r"
      by (cases answer) (simp_all add: find_resume_def)
    ultimately show ?thesis
      using Answer Some ba by simp
  qed
qed

lemma stuck_run:
  assumes "stuck r k"
  shows "stuck (run evs r) k \<and> count_list (queries (run evs r)) k = count_list (queries r) k"
  using assms
proof (induction evs arbitrary: r)
  case Nil
  then show ?case by simp
next
  case (Cons e evs)
  from stuck_step[OF Cons.prems, of e] Cons.IH[of "step e r"] show ?case
    by simp
qed

lemma reject_step:
  assumes "flying r k leader a fs"
  shows "stuck (step (Answer leader (Inl e)) r) k \<and>
         queries (step (Answer leader (Inl e)) r) = queries r \<and>
         settled (step (Answer leader (Inl e)) r) = (settled r)(leader \<mapsto> Inl e)"
proof -
  from assms have f: "profileMap (this r) k = None" "profileWaitingMap (this r) k = Some a"
    "map_of (suspended r) leader = Some (k, a)"
    "\<forall>(call, biz, waitingList) \<in> set (suspended r). biz = k \<longrightarrow> call = leader"
    by (simp_all add: flying_def)
  let ?r = "r\<lparr>suspended := AList.delete leader (suspended r)\<rparr>"
  have "k \<notin> in_flight ?r"
    using f(4) by (auto simp: in_flight_iff AList.delete_eq)
  with f show ?thesis
    by (simp add: stuck_def in_flight_def find_resume_def)
qed

text \<open>
  C1, as amended. Take one handler in which the key \<open>k\<close> is unresolved (neither map
  holds it and no query for it is in flight), and any schedule of new calls (each with a
  promise of its own) in which \<^verbatim>\<open>find(k)\<close> is called N times, by \<open>leader\<close> first and
  then by \<open>followers\<close>, interleaved in any way with calls and answers for other keys, and
  in which the leader's query is not answered. Then exactly one query for \<open>k\<close> has been
  issued since the start. When that query completes with \<open>doc\<close> (a profile, or \<open>None\<close>
  for no profile), each of the N calls settles with \<open>doc\<close>, the key is resolved to
  \<open>doc\<close>, and the query is still the only one. When the query is rejected with \<open>e\<close>,
  the rejection settles the leader's promise, with \<open>e\<close>, and no other: the followers are
  left as they were. From then on the key is stuck, whatever calls and answers come later:
  \<open>profileMap\<close> never learns it, its array stays in \<open>profileWaitingMap\<close> with no query
  in flight to release it, and no further query is issued for the key.
\<close>

theorem find_single_flight:
  assumes "unresolved r k"
    and "callers_of k evs = leader # followers"
    and "distinct (invoked evs)"
    and "set (invoked evs) \<inter> fst ` set (suspended r) = {}"
    and "leader \<notin> set (answered evs)"
  shows "count_list (queries (run evs r)) k = count_list (queries r) k + 1 \<and>
         (count_list (queries (run (evs @ [Answer leader (Inr doc)]) r)) k =
            count_list (queries r) k + 1 \<and>
          (\<forall>p \<in> set (leader # followers).
             settled (run (evs @ [Answer leader (Inr doc)]) r) p = Some (Inr doc)) \<and>
          resolved (run (evs @ [Answer leader (Inr doc)]) r) k doc) \<and>
         (settled (run (evs @ [Answer leader (Inl e)]) r) =
            (settled (run evs r))(leader \<mapsto> Inl e) \<and>
          stuck (run (evs @ [Answer leader (Inl e)] @ later) r) k \<and>
          count_list (queries (run (evs @ [Answer leader (Inl e)] @ later) r)) k =
            count_list (queries r) k + 1)"
proof -
  let ?r = "run evs r"
  let ?ok = "step (Answer leader (Inr doc)) ?r"
  let ?ko = "step (Answer leader (Inl e)) ?r"
  have whole: "run (evs @ [Answer leader (Inr doc)]) r = ?ok"
    "run (evs @ [Answer leader (Inl e)]) r = ?ko"
    "run (evs @ [Answer leader (Inl e)] @ later) r = run later ?ko"
    by (simp_all add: run_append)
  from in_flight_after_calls[OF assms] obtain a where
    flight: "flying ?r k leader a followers" and
    once: "count_list (queries ?r) k = count_list (queries r) k + 1"
    by blast
  from answer_step[OF flight, of doc] have answered: "resolved ?ok k doc" "queries ?ok = queries ?r"
    "\<forall>p \<in> set (leader # followers). settled ?ok p = Some (Inr doc)"
    by simp_all
  from reject_step[OF flight, of e] have rejected: "stuck ?ko k" "queries ?ko = queries ?r"
    "settled ?ko = (settled ?r)(leader \<mapsto> Inl e)"
    by simp_all
  from stuck_run[OF rejected(1), of later] have "stuck (run later ?ko) k"
    "count_list (queries (run later ?ko)) k = count_list (queries ?ko) k"
    by simp_all
  with once answered rejected show ?thesis
    unfolding whole by simp
qed

theorem find_single_flight_witness:
  "unresolved new_runtime example_biz \<and>
   callers_of example_biz example_schedule = [1, 3, 4] \<and>
   distinct (invoked example_schedule) \<and>
   set (invoked example_schedule) \<inter> fst ` set (suspended new_runtime) = {} \<and>
   1 \<notin> set (answered example_schedule) \<and>
   count_list (queries (run example_schedule new_runtime)) example_biz = 1 \<and>
   count_list (queries (run (example_schedule @ [Answer 1 (Inr (Some some_profile))]) new_runtime))
     example_biz = 1 \<and>
   map (settled (run (example_schedule @ [Answer 1 (Inr (Some some_profile))]) new_runtime)) [1, 3, 4] =
     [Some (Inr (Some some_profile)), Some (Inr (Some some_profile)), Some (Inr (Some some_profile))] \<and>
   resolved (run (example_schedule @ [Answer 1 (Inr (Some some_profile))]) new_runtime) example_biz
     (Some some_profile) \<and>
   map (settled (run (example_schedule @ [Answer 1 (Inl StoreError)]) new_runtime)) [1, 3, 4] =
     [Some (Inl StoreError), None, None] \<and>
   stuck (run (example_schedule @ [Answer 1 (Inl StoreError)] @ [Invoke 5 example_biz]) new_runtime)
     example_biz \<and>
   count_list
     (queries (run (example_schedule @ [Answer 1 (Inl StoreError)] @ [Invoke 5 example_biz])
        new_runtime)) example_biz = 1"
proof -
  have u: "unresolved new_runtime example_biz"
    by (simp add: unresolved_def in_flight_def new_runtime_def new_FindProfileHandler_def)
  have c: "callers_of example_biz example_schedule = [1, 3, 4]"
    by (simp add: example_schedule_def example_biz_def)
  have d: "distinct (invoked example_schedule)"
    by (simp add: example_schedule_def)
  have n: "set (invoked example_schedule) \<inter> fst ` set (suspended new_runtime) = {}"
    by (simp add: new_runtime_def)
  have a: "1 \<notin> set (answered example_schedule)"
    by (simp add: example_schedule_def)
  have before: "map (settled (run example_schedule new_runtime)) [3, 4] = [None, None]"
    by (simp add: example_schedule_def example_biz_def new_runtime_def new_FindProfileHandler_def
        find_enter_def find_resume_def Let_def)
  have "count_list (queries new_runtime) example_biz = 0"
    by (simp add: new_runtime_def)
  with find_single_flight[OF u c d n a, of "Some some_profile" StoreError "[Invoke 5 example_biz]"]
    u c d n a before
  show ?thesis by simp
qed

text \<open>
  Against C1 as stated: two calls for an unresolved key whose one query is rejected. The
  first call is rejected, the second is never settled, and neither is a third call made
  afterwards, which issues no query of its own.
\<close>

theorem find_rejected_leaves_followers:
  "map (settled (run (rejected_schedule @ [Answer 1 (Inl StoreError), Invoke 3 example_biz])
                  new_runtime)) [1, 2, 3] =
     [Some (Inl StoreError), None, None] \<and>
   queries (run (rejected_schedule @ [Answer 1 (Inl StoreError), Invoke 3 example_biz])
              new_runtime) = [example_biz]"
  by code_simp

lemma resolved_step:
  assumes "resolved r k doc"
  shows "resolved (step e r) k doc \<and> count_list (queries (step e r)) k = count_list (queries r) k"
proof (cases e)
  case (Invoke call biz)
  with assms show ?thesis
    by (auto simp: resolved_def in_flight_iff find_enter_def Let_def split: option.splits)
next
  case (Answer call answer)
  show ?thesis
  proof (cases "map_of (suspended r) call")
    case None
    with Answer assms show ?thesis by simp
  next
    case (Some ba)
    obtain biz a where ba: "ba = (biz, a)" by (cases ba)
    let ?r = "r\<lparr>suspended := AList.delete call (suspended r)\<rparr>"
    from Some ba have "(call, biz, a) \<in> set (suspended r)" by (auto dest: map_of_SomeD)
    with assms have "biz \<noteq> k" by (auto simp: resolved_def in_flight_iff)
    have "in_flight ?r \<subseteq> in_flight r"
      by (auto simp: AList.delete_eq in_flight_iff) blast
    with assms have nf: "k \<notin> in_flight ?r"
      by (auto simp: resolved_def)
    have "resolved (find_resume call biz a answer ?r) k doc"
      using assms \<open>biz \<noteq> k\<close> nf
      by (cases answer) (simp_all add: resolved_def in_flight_def find_resume_def)
    moreover have "queries (find_resume call biz a answer ?r) = queries r"
      by (cases answer) (simp_all add: find_resume_def)
    ultimately show ?thesis
      using Answer Some ba by simp
  qed
qed

text \<open>
  C2, as amended. In a handler whose key \<open>k\<close> is resolved to \<open>doc\<close> (a first call
  has completed, with a profile or with \<^verbatim>\<open>null\<close>), whatever calls and answers come
  later, the key stays resolved to \<open>doc\<close>, the number of queries issued for \<open>k\<close>
  stays what it was, and a further \<^verbatim>\<open>find(k)\<close> settles at once with \<open>doc\<close>
  without a query. The cache is the handler's: it lasts as long as the handler does.
\<close>

theorem find_cached:
  assumes "resolved r k doc"
  shows "resolved (run evs r) k doc \<and>
         count_list (queries (run evs r)) k = count_list (queries r) k \<and>
         settled (step (Invoke call k) (run evs r)) call = Some (Inr doc) \<and>
         queries (step (Invoke call k) (run evs r)) = queries (run evs r)"
proof -
  have later: "resolved (run evs r) k doc \<and>
      count_list (queries (run evs r)) k = count_list (queries r) k"
    using assms
  proof (induction evs arbitrary: r)
    case Nil
    then show ?case by simp
  next
    case (Cons e evs)
    from resolved_step[OF Cons.prems, of e] Cons.IH[of "step e r"] show ?case
      by simp
  qed
  then have "profileMap (this (run evs r)) k = Some doc"
    by (simp add: resolved_def)
  then have "settled (step (Invoke call k) (run evs r)) call = Some (Inr doc)"
    "queries (step (Invoke call k) (run evs r)) = queries (run evs r)"
    by (simp_all add: find_enter_def)
  with later show ?thesis by simp
qed

theorem find_cached_witness:
  "resolved absent_cached example_biz None \<and>
   queries absent_cached = [example_biz] \<and>
   settled (step (Invoke 7 example_biz) (run [Invoke 5 (JStr ''Bz2''), Invoke 6 example_biz] absent_cached)) 7 =
     Some (Inr None) \<and>
   count_list (queries (run [Invoke 5 (JStr ''Bz2''), Invoke 6 example_biz] absent_cached)) example_biz = 1 \<and>
   count_list (queries (step (Invoke 7 example_biz) (run [Invoke 5 (JStr ''Bz2''), Invoke 6 example_biz] absent_cached))) example_biz = 1"
proof -
  have r: "resolved absent_cached example_biz None"
    by (simp add: absent_cached_def resolved_def in_flight_def new_runtime_def
        new_FindProfileHandler_def find_enter_def find_resume_def Let_def)
  have q: "queries absent_cached = [example_biz]"
    by (simp add: absent_cached_def new_runtime_def
        new_FindProfileHandler_def find_enter_def find_resume_def Let_def)
  from find_cached[OF r, of "[Invoke 5 (JStr ''Bz2''), Invoke 6 example_biz]" 7] r q
  show ?thesis by simp
qed

text \<open>
  Against C2 as stated: \<^verbatim>\<open>savePostsData\<close> creates its handler anew on line 81, so two
  batches of the same publisher, one after the other in the same process, each query the
  store for the profile: the first lookup has completed, and the second is made all the
  same.
\<close>

theorem savePostsData_repeats_lookup:
  "map_sum id length (fst (savePostsData example_env [example_entry] empty_store)) = Inr 2 \<and>
   profile_lookups
     (oplog (snd (savePostsData example_env [example_entry]
        (snd (savePostsData example_env [example_entry] empty_store))))) =
     [[(''msgBiz'', JStr ''Bz1'')], [(''msgBiz'', JStr ''Bz1'')]]"
  by code_simp

section \<open>Further properties\<close>

lemma queried_once_step:
  assumes "queried_once r k"
  shows "queried_once (step e r) k"
proof (cases e)
  case (Invoke call biz)
  show ?thesis
  proof (cases "biz = k")
    case True
    with assms Invoke show ?thesis
      by (auto simp: queried_once_def find_enter_def Let_def split: option.splits)
  next
    case False
    with assms Invoke show ?thesis
      by (auto simp: queried_once_def find_enter_def Let_def split: option.splits)
  qed
next
  case (Answer call answer)
  show ?thesis
  proof (cases "map_of (suspended r) call")
    case None
    with Answer assms show ?thesis by simp
  next
    case (Some ba)
    obtain biz a where "ba = (biz, a)" by (cases ba)
    with Some Answer assms show ?thesis
      by (cases answer) (auto simp: queried_once_def find_resume_def)
  qed
qed

text \<open>
  A handler issues at most one query per key: in every schedule of calls and answers
  from a new handler, rejected queries and reused call numbers included, the number of
  \<^verbatim>\<open>findOne\<close> queries issued for a key is at most one.
\<close>

theorem find_queries_once:
  "count_list (queries (run evs new_runtime)) k \<le> 1"
proof -
  have "queried_once (run evs r) k" if "queried_once r k" for r
    using that
  proof (induction evs arbitrary: r)
    case Nil
    then show ?case by simp
  next
    case (Cons e evs)
    from Cons.IH[OF queried_once_step[OF Cons.prems]] show ?case by simp
  qed
  moreover have "queried_once new_runtime k"
    by (simp add: queried_once_def new_runtime_def)
  ultimately have "queried_once (run evs new_runtime) k" .
  then show ?thesis
    by (auto simp: queried_once_def)
qed

text \<open>
  The content step of \<^verbatim>\<open>getPostDetail\<close> does not look at the article found on
  line 188: with or without a stored article, with or without its \<^verbatim>\<open>html\<close>, it does
  what it does for an article that is not there.
\<close>

theorem save_content_ignores_article:
  "save_content env ident body doc s = save_content env ident body None s"
proof (cases ident)
  case (fields b m i)
  show ?thesis
  proof (cases doc)
    case None
    then show ?thesis by simp
  next
    case (Some d)
    with fields show ?thesis
      by (simp add: save_content_def)
  qed
qed

text \<open>
  A unit without a non-empty title or without a non-empty link is dropped: its
  callback returns \<^verbatim>\<open>undefined\<close> and makes no call on the store.
\<close>

theorem save_candidate_drops:
  assumes "kept_link u = None"
  shows "save_candidate env u s = (Inr None, s)"
  using assms
  by (auto simp: save_candidate_def kept_link_def split: option.splits if_splits)

theorem save_candidate_drops_witness:
  "kept_link untitled_unit = None \<and>
   save_candidate example_env untitled_unit empty_store = (Inr None, empty_store)"
proof -
  have k: "kept_link untitled_unit = None"
    by (simp add: kept_link_def untitled_unit_def)
  from save_candidate_drops[OF k, of example_env empty_store] k show ?thesis
    by simp
qed

text \<open>
  When the identity a link resolves to lacks a component, \<^verbatim>\<open>getPostDetail\<close>
  returns without fetching the document and without a call on the store.
\<close>

theorem getPostDetail_unresolved_identity:
  assumes "getIdentifying env link body = Inr (b, m, i)"
    and "\<not> (truthy b \<and> truthy m \<and> truthy i)"
  shows "getPostDetail env link body s = (Inr (), s)"
  using assms by (auto simp: getPostDetail_def)

theorem getPostDetail_unresolved_identity_witness:
  "getIdentifying example_env (JStr ''https://host/s?mid=Mid1&idx=2'') removed_page =
     Inr (Undefined, JStr ''Mid1'', JStr ''2'') \<and>
   getPostDetail example_env (JStr ''https://host/s?mid=Mid1&idx=2'') removed_page complete_store =
     (Inr (), complete_store)"
proof -
  have i: "getIdentifying example_env (JStr ''https://host/s?mid=Mid1&idx=2'') removed_page =
      Inr (Undefined, JStr ''Mid1'', JStr ''2'')"
    by code_simp
  from getPostDetail_unresolved_identity[OF i, of complete_store] i show ?thesis
    by simp
qed

end
